theory Spec2Isabelle
  imports Main "HOL-Library.Signed_Division"
begin

section \<open>Runes, strings and the environment\<close>

text \<open>
  The parser of \<^verbatim>\<open>logline\<close> works on \<^verbatim>\<open>[]rune(input)\<close> followed by the sentinel
  \<^verbatim>\<open>endRune = 1114112\<close>. A Go rune is an \<^verbatim>\<open>int32\<close>; the code points of a decoded
  string lie in \<open>0 .. 0x10FFFF\<close>, so they are modelled as \<open>int\<close> and nothing wraps.
  A Go string is modelled by the list of its runes; \<open>str\<close> turns an ASCII literal into it.
\<close>

type_synonym rune = int

definition endRune :: rune where
  "endRune = 1114112"

definition rn :: "char \<Rightarrow> rune" where
  "rn c = of_char c"

definition str :: "string \<Rightarrow> rune list" where
  "str s = map rn s"

text \<open>\<^verbatim>\<open>len(s)\<close> of a Go string counts the bytes of its UTF-8 encoding.\<close>

definition runeLen :: "rune \<Rightarrow> nat" where
  "runeLen r =
     (if 0 \<le> r \<and> r < 128 then 1
      else if 128 \<le> r \<and> r < 2048 then 2
      else if 65536 \<le> r \<and> r < 1114112 then 4
      else 3)"

definition byteLen :: "rune list \<Rightarrow> nat" where
  "byteLen s = sum_list (map runeLen s)"

text \<open>
  The tables of package \<^verbatim>\<open>unicode\<close> and the functions \<^verbatim>\<open>strconv.ParseFloat\<close>,
  \<^verbatim>\<open>math.Floor\<close> and the conversion \<^verbatim>\<open>int64(float64)\<close> belong to the Go library.
  On ASCII the tables are fixed here; above ASCII they are a parameter, and no table
  holds a value beyond \<^verbatim>\<open>unicode.MaxRune\<close>. A \<^verbatim>\<open>float64\<close> is a value of the type
  parameter \<open>'f\<close>.

  The code uses two different notions of space. \<^verbatim>\<open>unicode.Space\<close>, the table handed to
  \<^verbatim>\<open>unicode.Is\<close> by \<^verbatim>\<open>eatWhitespace\<close>, \<^verbatim>\<open>readUntil\<close> and \<^verbatim>\<open>expectRange\<close>, is the
  general category Z (separators): below U+0080 it holds U+0020 only. The function
  \<^verbatim>\<open>unicode.IsSpace\<close>, called by \<^verbatim>\<open>readUpcaseIdentifier\<close> and \<^verbatim>\<open>readAlphaIdentifier\<close>,
  tests the property White_Space: below U+0080 that is U+0009 .. U+000D and U+0020.
  \<^verbatim>\<open>unicode.IsDigit\<close>, \<^verbatim>\<open>unicode.IsLetter\<close>, \<^verbatim>\<open>unicode.IsNumber\<close> and \<^verbatim>\<open>unicode.IsUpper\<close>
  agree with \<^verbatim>\<open>unicode.Is\<close> on the tables \<^verbatim>\<open>Digit\<close>, \<^verbatim>\<open>Letter\<close>, \<^verbatim>\<open>Number\<close> and
  \<^verbatim>\<open>Upper\<close>.
\<close>

datatype RangeTable = Space | White_Space | Digit | Letter | Number | Upper

record 'f env =
  uniTable :: "RangeTable \<Rightarrow> rune \<Rightarrow> bool"
  ParseFloat :: "rune list \<Rightarrow> 'f option"
  floatIsIntegral :: "'f \<Rightarrow> bool"
  floatToInt64 :: "'f \<Rightarrow> int"

fun asciiIs :: "RangeTable \<Rightarrow> rune \<Rightarrow> bool" where
  "asciiIs Space r = (r = 32)"
| "asciiIs White_Space r = ((9 \<le> r \<and> r \<le> 13) \<or> r = 32)"
| "asciiIs Digit r = (48 \<le> r \<and> r \<le> 57)"
| "asciiIs Number r = (48 \<le> r \<and> r \<le> 57)"
| "asciiIs Letter r = ((65 \<le> r \<and> r \<le> 90) \<or> (97 \<le> r \<and> r \<le> 122))"
| "asciiIs Upper r = (65 \<le> r \<and> r \<le> 90)"

definition unicodeIs :: "'f env \<Rightarrow> RangeTable \<Rightarrow> rune \<Rightarrow> bool" where
  "unicodeIs E rt r =
     (if r < 128 then asciiIs rt r
      else if r < endRune then uniTable E rt r
      else False)"

definition IsSpace :: "'f env \<Rightarrow> rune \<Rightarrow> bool" where
  "IsSpace E r = unicodeIs E White_Space r"

section \<open>Values, errors and the parser state\<close>

text \<open>
  The values the parser stores are Go values of type \<^verbatim>\<open>interface{}\<close>: \<^verbatim>\<open>nil\<close>, a
  \<^verbatim>\<open>bool\<close>, a \<^verbatim>\<open>float64\<close>, a \<^verbatim>\<open>string\<close>, a \<^verbatim>\<open>time.Time\<close> built by
  \<^verbatim>\<open>time.Unix(sec, nsec)\<close>, a \<^verbatim>\<open>map[string]interface{}\<close> or a \<^verbatim>\<open>[]interface{}\<close>.
  A map is modelled by the list of its assignments, oldest first: a later binding of a key
  shadows an earlier one, and the list keeps the order in which the keys were stored.
\<close>

datatype 'f jvalue =
    VNil
  | VBool bool
  | VNumber 'f
  | VString "rune list"
  | VTime int int
  | VMap "(rune list \<times> 'f jvalue) list"
  | VList "'f jvalue list"

datatype error =
    EndBeforeRange
  | EndBeforeRune rune
  | UnexpectedEnd
  | InvalidDayOfWeek
  | InvalidMonth
  | UnknownSeverity rune
  | ExpectedSpaceAfterSeverity
  | IllegalRune rune
  | Expected rune rune
  | InvalidDuration
  | UnexpectedFieldStart "rune list"
  | ExpectedBraceOrComma
  | ExpectedBracketOrComma
  | UnexpectedEndJSON
  | UnexpectedConstructor "rune list"
  | ExpectedIntInDate
  | ExpectedQuoteInObjectId
  | UnexpectedJSONValue "rune list"
  | UnexpectedJSONStart rune
  | NumError "rune list"
  | PanicUnsupportedVersion
  | PanicIndexOutOfRange
  | OutOfFuel

text \<open>
  A panic is not an \<^verbatim>\<open>error\<close> value: no \<^verbatim>\<open>err != nil\<close> test sees it, it unwinds the
  whole call. Running out of fuel is treated the same way.
\<close>

fun isPanic :: "error \<Rightarrow> bool" where
  "isPanic PanicUnsupportedVersion = True"
| "isPanic PanicIndexOutOfRange = True"
| "isPanic OutOfFuel = True"
| "isPanic _ = False"

record 'f parser =
  Buffer :: "rune list"
  runes :: "rune list"
  position :: nat
  Fields :: "(rune list \<times> 'f jvalue) list"

text \<open>
  Every method of the parser returns its result together with the state it leaves behind,
  also when it fails: a method that returns an error may have moved the cursor.
\<close>

type_synonym ('a, 'f) res = "(error + 'a) \<times> 'f parser"

definition Init :: "rune list \<Rightarrow> 'f parser" where
  "Init input = \<lparr>Buffer = input, runes = input @ [endRune], position = 0, Fields = []\<rparr>"

definition setField :: "rune list \<Rightarrow> 'f jvalue \<Rightarrow> 'f parser \<Rightarrow> 'f parser" where
  "setField k v p = p\<lparr>Fields := Fields p @ [(k, v)]\<rparr>"

definition keys :: "'f parser \<Rightarrow> rune list list" where
  "keys p = map fst (Fields p)"

definition slice :: "rune list \<Rightarrow> nat \<Rightarrow> nat \<Rightarrow> rune list" where
  "slice rs a b = take (b - a) (drop a rs)"

section \<open>The cursor\<close>

text \<open>
  The scanning loops \<^verbatim>\<open>for cond(p.runes[endPosition]) { endPosition++ }\<close>: the index
  where the condition first fails, or \<open>None\<close> when the index leaves the slice (Go panics).
\<close>

function scanWhile :: "(rune \<Rightarrow> bool) \<Rightarrow> rune list \<Rightarrow> nat \<Rightarrow> nat option" where
  "scanWhile c rs i =
     (if i < length rs then (if c (rs ! i) then scanWhile c rs (i + 1) else Some i)
      else None)"
  by pat_completeness auto
termination
  by (relation "measure (\<lambda>(c, rs, i). length rs - i)") auto

declare scanWhile.simps [simp del]

definition lookahead :: "'f parser \<Rightarrow> nat \<Rightarrow> error + rune" where
  "lookahead p amount =
     (if position p + amount < length (runes p) then Inr (runes p ! (position p + amount))
      else Inl PanicIndexOutOfRange)"

fun matchAhead :: "'f parser \<Rightarrow> nat \<Rightarrow> rune list \<Rightarrow> error + bool" where
  "matchAhead p startIdx [] = Inr True"
| "matchAhead p startIdx (r # s) =
     (if startIdx < length (runes p)
      then (if r \<noteq> runes p ! startIdx then Inr False else matchAhead p (startIdx + 1) s)
      else Inl PanicIndexOutOfRange)"

definition advance :: "'f parser \<Rightarrow> (rune, 'f) res" where
  "advance p =
     (if position p < length (runes p)
      then (Inr (runes p ! position p), p\<lparr>position := position p + 1\<rparr>)
      else (Inl PanicIndexOutOfRange, p))"

definition expect :: "rune \<Rightarrow> 'f parser \<Rightarrow> (unit, 'f) res" where
  "expect past p =
     (case advance p of
        (Inl e, p') \<Rightarrow> (Inl e, p')
      | (Inr r, p') \<Rightarrow> if r \<noteq> past then (Inl (Expected past r), p') else (Inr (), p'))"

definition expectRange :: "'f env \<Rightarrow> RangeTable \<Rightarrow> error \<Rightarrow> 'f parser \<Rightarrow> (unit, 'f) res" where
  "expectRange E rt errStr p =
     (case advance p of
        (Inl e, p') \<Rightarrow> (Inl e, p')
      | (Inr r, p') \<Rightarrow> if \<not> unicodeIs E rt r then (Inl errStr, p') else (Inr (), p'))"

definition eatWhitespace :: "'f env \<Rightarrow> 'f parser \<Rightarrow> (unit, 'f) res" where
  "eatWhitespace E p =
     (case scanWhile (unicodeIs E Space) (runes p) (position p) of
        None \<Rightarrow> (Inl PanicIndexOutOfRange, p)
      | Some i \<Rightarrow> (Inr (), p\<lparr>position := i\<rparr>))"

datatype checkItem = InTable RangeTable | IsRune rune

fun doCheck :: "'f env \<Rightarrow> rune \<Rightarrow> checkItem \<Rightarrow> bool" where
  "doCheck E r (InTable rt) = unicodeIs E rt r"
| "doCheck E r (IsRune c) = (r = c)"

fun check :: "'f env \<Rightarrow> rune \<Rightarrow> checkItem list \<Rightarrow> bool" where
  "check E r [] = False"
| "check E r (c # cs) = (if doCheck E r c then True else check E r cs)"

definition readUntil :: "'f env \<Rightarrow> RangeTable \<Rightarrow> 'f parser \<Rightarrow> (rune list, 'f) res" where
  "readUntil E untilRangeTable p =
     (case scanWhile (\<lambda>r. r \<noteq> endRune \<and> \<not> unicodeIs E untilRangeTable r)
             (runes p) (position p) of
        None \<Rightarrow> (Inl PanicIndexOutOfRange, p)
      | Some endPosition \<Rightarrow>
          if runes p ! endPosition = endRune then (Inl EndBeforeRange, p)
          else (Inr (slice (runes p) (position p) endPosition),
                p\<lparr>position := endPosition\<rparr>))"

definition readUntilRune :: "rune \<Rightarrow> 'f parser \<Rightarrow> (rune list, 'f) res" where
  "readUntilRune untilRune p =
     (case scanWhile (\<lambda>r. r \<noteq> untilRune \<and> r \<noteq> endRune) (runes p) (position p) of
        None \<Rightarrow> (Inl PanicIndexOutOfRange, p)
      | Some endPosition \<Rightarrow>
          if runes p ! endPosition = endRune \<and> untilRune \<noteq> endRune
          then (Inl (EndBeforeRune untilRune), p)
          else (Inr (slice (runes p) (position p) endPosition),
                p\<lparr>position := endPosition\<rparr>))"

definition readWhile :: "'f env \<Rightarrow> checkItem list \<Rightarrow> 'f parser \<Rightarrow> (rune list, 'f) res" where
  "readWhile E checks p =
     (case scanWhile (\<lambda>r. r \<noteq> endRune \<and> check E r checks) (runes p) (position p) of
        None \<Rightarrow> (Inl PanicIndexOutOfRange, p)
      | Some endPosition \<Rightarrow>
          if runes p ! endPosition = endRune then (Inl UnexpectedEnd, p)
          else (Inr (slice (runes p) (position p) endPosition),
                p\<lparr>position := endPosition\<rparr>))"

definition jsonIdentChecks :: "checkItem list" where
  "jsonIdentChecks =
     [InTable Letter, InTable Digit, IsRune (rn CHR ''$''), IsRune (rn CHR ''_''),
      IsRune (rn CHR ''.''), IsRune (rn CHR ''*'')]"

definition readJSONIdentifier :: "'f env \<Rightarrow> 'f parser \<Rightarrow> (rune list, 'f) res" where
  "readJSONIdentifier E p =
     (case scanWhile (\<lambda>r. check E r jsonIdentChecks) (runes p) (position p) of
        None \<Rightarrow> (Inl PanicIndexOutOfRange, p)
      | Some endPosition \<Rightarrow>
          (Inr (slice (runes p) (position p) endPosition), p\<lparr>position := endPosition\<rparr>))"

text \<open>
  The loop shared by \<^verbatim>\<open>readUpcaseIdentifier\<close> and \<^verbatim>\<open>readAlphaIdentifier\<close>: it runs
  to the next space or the sentinel and returns an error at the first illegal rune.
\<close>

function scanIdent :: "'f env \<Rightarrow> (rune \<Rightarrow> bool) \<Rightarrow> rune list \<Rightarrow> nat \<Rightarrow> error + nat" where
  "scanIdent E illegal rs i =
     (if i < length rs
      then (if \<not> IsSpace E (rs ! i) \<and> rs ! i \<noteq> endRune
            then (if illegal (rs ! i) then Inl (IllegalRune (rs ! i))
                  else scanIdent E illegal rs (i + 1))
            else Inr i)
      else Inl PanicIndexOutOfRange)"
  by pat_completeness auto
termination
  by (relation "measure (\<lambda>(E, illegal, rs, i). length rs - i)") auto

declare scanIdent.simps [simp del]

definition readUpcaseIdentifier :: "'f env \<Rightarrow> 'f parser \<Rightarrow> (rune list, 'f) res" where
  "readUpcaseIdentifier E p =
     (case scanIdent E
             (\<lambda>r. r \<noteq> rn CHR ''_'' \<and> \<not> unicodeIs E Digit r
                  \<and> (\<not> unicodeIs E Letter r \<or> \<not> unicodeIs E Upper r))
             (runes p) (position p) of
        Inl e \<Rightarrow> (Inl e, p)
      | Inr endPosition \<Rightarrow>
          (Inr (slice (runes p) (position p) endPosition), p\<lparr>position := endPosition\<rparr>))"

definition readAlphaIdentifier :: "'f env \<Rightarrow> 'f parser \<Rightarrow> (rune list, 'f) res" where
  "readAlphaIdentifier E p =
     (case scanIdent E (\<lambda>r. \<not> unicodeIs E Letter r) (runes p) (position p) of
        Inl e \<Rightarrow> (Inl e, p)
      | Inr endPosition \<Rightarrow>
          (Inr (slice (runes p) (position p) endPosition), p\<lparr>position := endPosition\<rparr>))"

definition numberChecks :: "checkItem list" where
  "numberChecks =
     [InTable Digit, IsRune (rn CHR ''.''), IsRune (rn CHR ''+''), IsRune (rn CHR ''-''),
      IsRune (rn CHR ''e''), IsRune (rn CHR ''E'')]"

definition readNumber :: "'f env \<Rightarrow> 'f parser \<Rightarrow> ('f, 'f) res" where
  "readNumber E p =
     (case scanWhile (\<lambda>r. check E r numberChecks) (runes p) (position p) of
        None \<Rightarrow> (Inl PanicIndexOutOfRange, p)
      | Some endPosition \<Rightarrow>
          if runes p ! endPosition = endRune then (Inl EndBeforeRange, p)
          else (let s = slice (runes p) (position p) endPosition;
                    p' = p\<lparr>position := endPosition\<rparr>
                in case ParseFloat E s of
                     None \<Rightarrow> (Inl (NumError s), p')
                   | Some rv \<Rightarrow> (Inr rv, p')))"

definition readDuration :: "'f env \<Rightarrow> 'f parser \<Rightarrow> ('f, 'f) res" where
  "readDuration E p =
     (case scanWhile (unicodeIs E Digit) (runes p) (position p) of
        None \<Rightarrow> (Inl PanicIndexOutOfRange, p)
      | Some endPosition \<Rightarrow>
          if runes p ! endPosition \<noteq> rn CHR ''m'' then (Inl InvalidDuration, p)
          else if \<not> endPosition + 1 < length (runes p) then (Inl PanicIndexOutOfRange, p)
          else if runes p ! (endPosition + 1) \<noteq> rn CHR ''s'' then (Inl InvalidDuration, p)
          else (let s = slice (runes p) (position p) endPosition;
                    p' = p\<lparr>position := endPosition + 2\<rparr>
                in case ParseFloat E s of
                     None \<Rightarrow> (Inl (NumError s), p')
                   | Some rv \<Rightarrow> (Inr rv, p')))"

fun severityToString :: "rune \<Rightarrow> error + rune list" where
  "severityToString sev =
     (if sev = rn CHR ''D'' then Inr (str ''debug'')
      else if sev = rn CHR ''I'' then Inr (str ''informational'')
      else if sev = rn CHR ''W'' then Inr (str ''warning'')
      else if sev = rn CHR ''E'' then Inr (str ''error'')
      else if sev = rn CHR ''F'' then Inr (str ''fatal'')
      else Inl (UnknownSeverity sev))"

text \<open>
  \<^verbatim>\<open>validDayOfWeek\<close> and \<^verbatim>\<open>validMonth\<close> take the pair a reader returned and look at
  the string only; a failed reader hands over the empty string.
\<close>

definition goPair :: "(rune list, 'f) res \<Rightarrow> rune list \<times> error option" where
  "goPair r = (case fst r of Inl e \<Rightarrow> ([], Some e) | Inr s \<Rightarrow> (s, None))"

definition validDayOfWeek :: "rune list \<times> error option \<Rightarrow> error + rune list" where
  "validDayOfWeek a =
     (case a of (dayOfWeek, err) \<Rightarrow>
        if byteLen dayOfWeek \<noteq> 3 then Inl InvalidDayOfWeek else Inr dayOfWeek)"

definition validMonth :: "rune list \<times> error option \<Rightarrow> error + rune list" where
  "validMonth a =
     (case a of (month, err) \<Rightarrow>
        if byteLen month \<noteq> 3 then Inl InvalidMonth else Inr month)"

section \<open>The document-value parser\<close>

definition dquote :: rune where
  "dquote = 34"

definition squote :: rune where
  "squote = 39"

definition parseStringValue :: "rune \<Rightarrow> 'f parser \<Rightarrow> (rune list, 'f) res" where
  "parseStringValue quote p =
     (case readUntilRune quote (p\<lparr>position := position p + 1\<rparr>) of
        (Inl e, p') \<Rightarrow> (Inl e, p')
      | (Inr s, p') \<Rightarrow> (Inr s, p'\<lparr>position := position p' + 1\<rparr>))"

text \<open>
  The quoted JSON blob of \<^verbatim>\<open>parseJSONValue\<close>: the two terminators are quote, comma,
  space and three dots, quote, comma, space.
\<close>

definition quoteCommaSpace :: "rune list" where
  "quoteCommaSpace = [dquote, rn CHR '','', rn CHR '' '']"

definition dotsQuoteCommaSpace :: "rune list" where
  "dotsQuoteCommaSpace =
     [rn CHR ''.'', rn CHR ''.'', rn CHR ''.'', dquote, rn CHR '','', rn CHR '' '']"

function embeddedLoop :: "'f parser \<Rightarrow> bool \<Rightarrow> nat \<Rightarrow> error + nat" where
  "embeddedLoop p quoted endPosition =
     (case (if \<not> quoted then matchAhead p endPosition quoteCommaSpace else Inr False) of
        Inl e \<Rightarrow> Inl e
      | Inr True \<Rightarrow> Inr (endPosition + 1)
      | Inr False \<Rightarrow>
          (case (if quoted then matchAhead p endPosition dotsQuoteCommaSpace else Inr False) of
             Inl e \<Rightarrow> Inl e
           | Inr True \<Rightarrow> Inr (endPosition + 4)
           | Inr False \<Rightarrow>
               if \<not> endPosition < length (runes p) then Inl PanicIndexOutOfRange
               else if \<not> endPosition + 1 < length (runes p) then Inl PanicIndexOutOfRange
               else if runes p ! (endPosition + 1) = endRune then Inl UnexpectedEndJSON
               else embeddedLoop p
                      (if runes p ! endPosition = dquote then \<not> quoted else quoted)
                      (endPosition + 1)))"
  by pat_completeness auto
termination
  by (relation "measure (\<lambda>(p, quoted, endPosition). length (runes p) - endPosition)") auto

declare embeddedLoop.simps [simp del]

definition parseJSONValue_blob :: "'f parser \<Rightarrow> ('f jvalue, 'f) res" where
  "parseJSONValue_blob p =
     (let p1 = p\<lparr>position := position p + 1\<rparr> in
      case embeddedLoop p1 False (position p1) of
        Inl e \<Rightarrow> (Inl e, p1)
      | Inr endPosition \<Rightarrow>
          (Inr (VString (slice (runes p1) (position p1) endPosition)),
           p1\<lparr>position := endPosition\<rparr>))"

text \<open>The branch \<^verbatim>\<open>value == "new"\<close>.\<close>

definition parseJSONValue_new :: "'f env \<Rightarrow> 'f parser \<Rightarrow> ('f jvalue, 'f) res" where
  "parseJSONValue_new E p =
     (case eatWhitespace E p of (Inl e, p) \<Rightarrow> (Inl e, p) | (Inr _, p) \<Rightarrow>
      case readJSONIdentifier E p of (Inl e, p) \<Rightarrow> (Inl e, p) | (Inr v, p) \<Rightarrow>
      if v \<noteq> str ''Date'' then (Inl (UnexpectedConstructor v), p) else
      case expect (rn CHR ''('') p of (Inl e, p) \<Rightarrow> (Inl e, p) | (Inr _, p) \<Rightarrow>
      case readNumber E p of (Inl e, p) \<Rightarrow> (Inl e, p) | (Inr dateNum, p) \<Rightarrow>
      case expect (rn CHR '')'') p of (Inl e, p) \<Rightarrow> (Inl e, p) | (Inr _, p) \<Rightarrow>
      if \<not> floatIsIntegral E dateNum then (Inl ExpectedIntInDate, p) else
      (let unixSec = floatToInt64 E dateNum sdiv 1000;
           unixNS = floatToInt64 E dateNum smod 1000 * 1000000
       in (Inr (VTime unixSec unixNS), p)))"

text \<open>The branch \<^verbatim>\<open>value == "Timestamp"\<close>.\<close>

definition parseJSONValue_Timestamp :: "'f env \<Rightarrow> 'f parser \<Rightarrow> ('f jvalue, 'f) res" where
  "parseJSONValue_Timestamp E p =
     (case lookahead p 0 of Inl e \<Rightarrow> (Inl e, p) | Inr c \<Rightarrow>
      if c = rn CHR ''(''
      then (case readUntilRune (rn CHR '')'') p of
              (Inl e, p) \<Rightarrow> (Inl e, p)
            | (Inr ts, p) \<Rightarrow> (Inr (VString ts), p))
      else (case eatWhitespace E p of (Inl e, p) \<Rightarrow> (Inl e, p) | (Inr _, p) \<Rightarrow>
            case readWhile E [InTable Digit, IsRune (rn CHR ''|'')] p of
              (Inl e, p) \<Rightarrow> (Inl e, p)
            | (Inr ts, p) \<Rightarrow> (Inr (VString ts), p)))"

text \<open>The branch \<^verbatim>\<open>value == "ObjectId"\<close>.\<close>

definition hexRunes :: "checkItem list" where
  "hexRunes = map (\<lambda>c. IsRune (rn c)) ''0123456789ABCDEFabcdef''"

definition parseJSONValue_ObjectId :: "'f env \<Rightarrow> 'f parser \<Rightarrow> ('f jvalue, 'f) res" where
  "parseJSONValue_ObjectId E p =
     (case expect (rn CHR ''('') p of (Inl e, p) \<Rightarrow> (Inl e, p) | (Inr _, p) \<Rightarrow>
      case lookahead p 0 of Inl e \<Rightarrow> (Inl e, p) | Inr quote \<Rightarrow>
      if quote \<noteq> squote \<and> quote \<noteq> dquote then (Inl ExpectedQuoteInObjectId, p) else
      case readWhile E hexRunes (p\<lparr>position := position p + 1\<rparr>) of
        (Inl e, p) \<Rightarrow> (Inl e, p) | (Inr hex, p) \<Rightarrow>
      case expect quote p of (Inl e, p) \<Rightarrow> (Inl e, p) | (Inr _, p) \<Rightarrow>
      case expect (rn CHR '')'') p of (Inl e, p) \<Rightarrow> (Inl e, p) | (Inr _, p) \<Rightarrow>
      (Inr (VString hex), p))"

text \<open>The case \<^verbatim>\<open>unicode.IsLetter(firstCharInVal)\<close>.\<close>

definition parseJSONValue_letter :: "'f env \<Rightarrow> 'f parser \<Rightarrow> ('f jvalue, 'f) res" where
  "parseJSONValue_letter E p =
     (case readJSONIdentifier E p of (Inl e, p) \<Rightarrow> (Inl e, p) | (Inr v, p) \<Rightarrow>
      if v = str ''null'' then (Inr VNil, p)
      else if v = str ''true'' then (Inr (VBool True), p)
      else if v = str ''false'' then (Inr (VBool False), p)
      else if v = str ''new'' then parseJSONValue_new E p
      else if v = str ''Timestamp'' then parseJSONValue_Timestamp E p
      else if v = str ''ObjectId'' then parseJSONValue_ObjectId E p
      else (Inl (UnexpectedJSONValue v), p))"

text \<open>
  \<^verbatim>\<open>parseJSONValue\<close>, \<^verbatim>\<open>parseJSONMap\<close> and \<^verbatim>\<open>parseJSONArray\<close> call each other;
  the fuel bounds the number of nested calls and loop rounds.
\<close>

fun parseJSONValue :: "nat \<Rightarrow> 'f env \<Rightarrow> 'f parser \<Rightarrow> ('f jvalue, 'f) res"
  and parseJSONMapLoop ::
    "nat \<Rightarrow> 'f env \<Rightarrow> (rune list \<times> 'f jvalue) list \<Rightarrow> 'f parser \<Rightarrow> ('f jvalue, 'f) res"
  and parseJSONArrayLoop ::
    "nat \<Rightarrow> 'f env \<Rightarrow> 'f jvalue list \<Rightarrow> 'f parser \<Rightarrow> ('f jvalue, 'f) res"
where
  "parseJSONValue 0 E p = (Inl OutOfFuel, p)"
| "parseJSONValue (Suc n) E p =
     (case lookahead p 0 of Inl e \<Rightarrow> (Inl e, p) | Inr firstCharInVal \<Rightarrow>
      if firstCharInVal = rn CHR ''{''
      then parseJSONMapLoop n E [] (p\<lparr>position := position p + 1\<rparr>)
      else if firstCharInVal = rn CHR ''[''
      then (case eatWhitespace E (p\<lparr>position := position p + 1\<rparr>) of
              (Inl e, p) \<Rightarrow> (Inl e, p) | (Inr _, p) \<Rightarrow>
            case lookahead p 0 of Inl e \<Rightarrow> (Inl e, p) | Inr c \<Rightarrow>
            if c = rn CHR '']'' then (Inr (VList []), p\<lparr>position := position p + 1\<rparr>)
            else parseJSONArrayLoop n E [] p)
      else if check E firstCharInVal
                [InTable Digit, IsRune (rn CHR ''-''), IsRune (rn CHR ''+''),
                 IsRune (rn CHR ''.'')]
      then (case readNumber E p of
              (Inl e, p) \<Rightarrow> (Inl e, p)
            | (Inr v, p) \<Rightarrow> (Inr (VNumber v), p))
      else if firstCharInVal = dquote
      then (case lookahead p 1 of Inl e \<Rightarrow> (Inl e, p) | Inr c \<Rightarrow>
            if c \<noteq> rn CHR ''{''
            then (case parseStringValue firstCharInVal p of
                    (Inl e, p) \<Rightarrow> (Inl e, p)
                  | (Inr s, p) \<Rightarrow> (Inr (VString s), p))
            else parseJSONValue_blob p)
      else if unicodeIs E Letter firstCharInVal then parseJSONValue_letter E p
      else (Inl (UnexpectedJSONStart firstCharInVal), p))"
| "parseJSONMapLoop 0 E rv p = (Inl OutOfFuel, p)"
| "parseJSONMapLoop (Suc n) E rv p =
     (case eatWhitespace E p of (Inl e, p) \<Rightarrow> (Inl e, p) | (Inr _, p) \<Rightarrow>
      case lookahead p 0 of Inl e \<Rightarrow> (Inl e, p) | Inr fc \<Rightarrow>
      case (if fc = dquote \<or> fc = squote then parseStringValue fc p
            else readJSONIdentifier E p) of
        (Inl e, p) \<Rightarrow> (Inl e, p) | (Inr key, p) \<Rightarrow>
      case (if key \<noteq> []
            then (case eatWhitespace E p of (Inl e, p) \<Rightarrow> (Inl e, p) | (Inr _, p) \<Rightarrow>
                  case expect (rn CHR '':'') p of (Inl e, p) \<Rightarrow> (Inl e, p) | (Inr _, p) \<Rightarrow>
                  case eatWhitespace E p of (Inl e, p) \<Rightarrow> (Inl e, p) | (Inr _, p) \<Rightarrow>
                  case parseJSONValue n E p of
                    (Inl e, p) \<Rightarrow> (Inl e, p)
                  | (Inr v, p) \<Rightarrow> (Inr (rv @ [(key, v)]), p))
            else (Inr rv, p)) of
        (Inl e, p) \<Rightarrow> (Inl e, p) | (Inr rv, p) \<Rightarrow>
      case eatWhitespace E p of (Inl e, p) \<Rightarrow> (Inl e, p) | (Inr _, p) \<Rightarrow>
      case lookahead p 0 of Inl e \<Rightarrow> (Inl e, p) | Inr commaOrRbrace \<Rightarrow>
      if commaOrRbrace = rn CHR ''}'' then (Inr (VMap rv), p\<lparr>position := position p + 1\<rparr>)
      else if commaOrRbrace = rn CHR '',''
      then parseJSONMapLoop n E rv (p\<lparr>position := position p + 1\<rparr>)
      else (Inl ExpectedBraceOrComma, p))"
| "parseJSONArrayLoop 0 E rv p = (Inl OutOfFuel, p)"
| "parseJSONArrayLoop (Suc n) E rv p =
     (case parseJSONValue n E p of (Inl e, p) \<Rightarrow> (Inl e, p) | (Inr v, p) \<Rightarrow>
      case eatWhitespace E p of (Inl e, p) \<Rightarrow> (Inl e, p) | (Inr _, p) \<Rightarrow>
      case lookahead p 0 of Inl e \<Rightarrow> (Inl e, p) | Inr commaOrRbrace \<Rightarrow>
      if commaOrRbrace = rn CHR '']''
      then (Inr (VList (rv @ [v])), p\<lparr>position := position p + 1\<rparr>)
      else if commaOrRbrace = rn CHR '',''
      then (case eatWhitespace E (p\<lparr>position := position p + 1\<rparr>) of
              (Inl e, p) \<Rightarrow> (Inl e, p)
            | (Inr _, p) \<Rightarrow> parseJSONArrayLoop n E (rv @ [v]) p)
      else (Inl ExpectedBracketOrComma, p))"

definition parseJSONMap :: "nat \<Rightarrow> 'f env \<Rightarrow> 'f parser \<Rightarrow> ('f jvalue, 'f) res" where
  "parseJSONMap n E p = parseJSONMapLoop n E [] (p\<lparr>position := position p + 1\<rparr>)"

definition parseJSONArray :: "nat \<Rightarrow> 'f env \<Rightarrow> 'f parser \<Rightarrow> ('f jvalue, 'f) res" where
  "parseJSONArray n E p =
     (case eatWhitespace E (p\<lparr>position := position p + 1\<rparr>) of
        (Inl e, p) \<Rightarrow> (Inl e, p) | (Inr _, p) \<Rightarrow>
      case lookahead p 0 of Inl e \<Rightarrow> (Inl e, p) | Inr c \<Rightarrow>
      if c = rn CHR '']'' then (Inr (VList []), p\<lparr>position := position p + 1\<rparr>)
      else parseJSONArrayLoop n E [] p)"

section \<open>The log-line parser\<close>

definition parsePlanSummaryElement ::
  "nat \<Rightarrow> 'f env \<Rightarrow> 'f parser \<Rightarrow> ('f jvalue option, 'f) res" where
  "parsePlanSummaryElement n E p =
     (case eatWhitespace E p of (Inl e, p) \<Rightarrow> (Inl e, p) | (Inr _, p) \<Rightarrow>
      let savedPosition = position p in
      case readUpcaseIdentifier E p of
        (Inl e, p) \<Rightarrow>
          if isPanic e then (Inl e, p) else (Inr None, p\<lparr>position := savedPosition\<rparr>)
      | (Inr stage, p) \<Rightarrow>
      case eatWhitespace E p of (Inl e, p) \<Rightarrow> (Inl e, p) | (Inr _, p) \<Rightarrow>
      case lookahead p 0 of Inl e \<Rightarrow> (Inl e, p) | Inr c \<Rightarrow>
      if c = rn CHR ''{''
      then (case parseJSONMap n E p of
              (Inl e, p) \<Rightarrow> if isPanic e then (Inl e, p) else (Inr None, p)
            | (Inr m, p) \<Rightarrow> (Inr (Some (VMap [(stage, m)])), p))
      else (Inr (Some (VMap [(stage, VBool True)])), p))"

fun parsePlanSummaryLoop ::
  "nat \<Rightarrow> 'f env \<Rightarrow> 'f jvalue list \<Rightarrow> 'f parser \<Rightarrow> ('f jvalue, 'f) res" where
  "parsePlanSummaryLoop 0 E rv p = (Inl OutOfFuel, p)"
| "parsePlanSummaryLoop (Suc n) E rv p =
     (case parsePlanSummaryElement n E p of (Inl e, p) \<Rightarrow> (Inl e, p) | (Inr elem, p) \<Rightarrow>
      let rv = (case elem of None \<Rightarrow> rv | Some x \<Rightarrow> rv @ [x]) in
      case eatWhitespace E p of (Inl e, p) \<Rightarrow> (Inl e, p) | (Inr _, p) \<Rightarrow>
      case lookahead p 0 of Inl e \<Rightarrow> (Inl e, p) | Inr c \<Rightarrow>
      if c \<noteq> rn CHR '','' then (Inr (VList rv), p)
      else parsePlanSummaryLoop n E rv (p\<lparr>position := position p + 1\<rparr>))"

definition parsePlanSummary :: "nat \<Rightarrow> 'f env \<Rightarrow> 'f parser \<Rightarrow> ('f jvalue, 'f) res" where
  "parsePlanSummary n E p =
     (case eatWhitespace E p of (Inl e, p) \<Rightarrow> (Inl e, p) | (Inr _, p) \<Rightarrow>
      parsePlanSummaryLoop n E [] p)"

text \<open>The value of a field named \<^verbatim>\<open>command\<close>.\<close>

definition parseFieldAndValue_command ::
  "nat \<Rightarrow> 'f env \<Rightarrow> 'f parser \<Rightarrow> ('f jvalue, 'f) res" where
  "parseFieldAndValue_command n E p =
     (case lookahead p 0 of Inl e \<Rightarrow> (Inl e, p) | Inr firstCharInVal \<Rightarrow>
      case (if firstCharInVal \<noteq> rn CHR ''{''
            then (case readJSONIdentifier E p of
                    (Inl e, p) \<Rightarrow> (Inl e, p) | (Inr name, p) \<Rightarrow>
                  case eatWhitespace E p of (Inl e, p) \<Rightarrow> (Inl e, p) | (Inr _, p) \<Rightarrow>
                  (Inr (), setField (str ''command_type'') (VString name) p))
            else (Inr (), p)) of
        (Inl e, p) \<Rightarrow> (Inl e, p) | (Inr _, p) \<Rightarrow>
      parseJSONMap n E p)"

text \<open>The value of any other field, chosen by its first rune.\<close>

definition parseFieldAndValue_other ::
  "nat \<Rightarrow> 'f env \<Rightarrow> rune list \<Rightarrow> 'f parser \<Rightarrow> ('f jvalue, 'f) res" where
  "parseFieldAndValue_other n E fieldName p =
     (case lookahead p 0 of Inl e \<Rightarrow> (Inl e, p) | Inr firstCharInVal \<Rightarrow>
      if firstCharInVal = rn CHR ''{'' then parseJSONMap n E p
      else if unicodeIs E Digit firstCharInVal
      then (case readNumber E p of
              (Inl e, p) \<Rightarrow> (Inl e, p)
            | (Inr v, p) \<Rightarrow> (Inr (VNumber v), p))
      else if firstCharInVal = dquote
      then (case parseStringValue firstCharInVal p of
              (Inl e, p) \<Rightarrow> (Inl e, p)
            | (Inr s, p) \<Rightarrow> (Inr (VString s), p))
      else (Inl (UnexpectedFieldStart fieldName), p))"

definition parseFieldAndValue :: "nat \<Rightarrow> 'f env \<Rightarrow> 'f parser \<Rightarrow> (bool, 'f) res" where
  "parseFieldAndValue n E p =
     (case eatWhitespace E p of (Inl e, p) \<Rightarrow> (Inl e, p) | (Inr _, p) \<Rightarrow>
      let savedPosition = position p in
      case readUntilRune (rn CHR '':'') p of
        (Inl e, p) \<Rightarrow>
          if isPanic e then (Inl e, p) else (Inr True, p\<lparr>position := savedPosition\<rparr>)
      | (Inr fieldName, p) \<Rightarrow>
      case eatWhitespace E (p\<lparr>position := position p + 1\<rparr>) of
        (Inl e, p) \<Rightarrow> (Inl e, p) | (Inr _, p) \<Rightarrow>
      case (if fieldName = str ''planSummary'' then parsePlanSummary n E p
            else if fieldName = str ''command'' then parseFieldAndValue_command n E p
            else parseFieldAndValue_other n E fieldName p) of
        (Inl e, p) \<Rightarrow> (Inl e, p)
      | (Inr fieldValue, p) \<Rightarrow> (Inr False, setField fieldName fieldValue p))"

fun parseOperationBody :: "nat \<Rightarrow> 'f env \<Rightarrow> 'f parser \<Rightarrow> (unit, 'f) res" where
  "parseOperationBody 0 E p = (Inl OutOfFuel, p)"
| "parseOperationBody (Suc n) E p =
     (if \<not> position p < length (runes p) then (Inl PanicIndexOutOfRange, p)
      else if runes p ! position p = endRune then (Inr (), p)
      else case parseFieldAndValue n E p of (Inl e, p) \<Rightarrow> (Inl e, p) | (Inr done, p) \<Rightarrow>
           if done
           then (case readDuration E p of
                   (Inl e, p) \<Rightarrow> (Inl e, p)
                 | (Inr dur, p) \<Rightarrow> (Inr (), setField (str ''duration'') (VNumber dur) p))
           else parseOperationBody n E p)"

definition isOperationName :: "rune list \<Rightarrow> bool" where
  "isOperationName s =
     (s = str ''query'' \<or> s = str ''getmore'' \<or> s = str ''insert'' \<or> s = str ''update''
      \<or> s = str ''remove'' \<or> s = str ''command'')"

text \<open>The two branches of \<^verbatim>\<open>parseMessage\<close>: an operation, or free text.\<close>

definition parseMessage_operation ::
  "nat \<Rightarrow> 'f env \<Rightarrow> rune list \<Rightarrow> 'f parser \<Rightarrow> (unit, 'f) res" where
  "parseMessage_operation n E operation p =
     (case eatWhitespace E p of (Inl e, p) \<Rightarrow> (Inl e, p) | (Inr _, p) \<Rightarrow>
      let p = setField (str ''operation'') (VString operation) p in
      case readUntil E Space p of (Inl e, p) \<Rightarrow> (Inl e, p) | (Inr namespace, p) \<Rightarrow>
      parseOperationBody n E (setField (str ''namespace'') (VString namespace) p))"

definition parseMessage_text :: "nat \<Rightarrow> 'f parser \<Rightarrow> (unit, 'f) res" where
  "parseMessage_text savedPosition p =
     (case readUntilRune endRune (p\<lparr>position := savedPosition\<rparr>) of
        (Inl e, p) \<Rightarrow>
          if isPanic e then (Inl e, p) else (Inl e, setField (str ''message'') (VString []) p)
      | (Inr m, p) \<Rightarrow> (Inr (), setField (str ''message'') (VString m) p))"

definition parseMessage :: "nat \<Rightarrow> 'f env \<Rightarrow> 'f parser \<Rightarrow> (unit, 'f) res" where
  "parseMessage n E p =
     (case eatWhitespace E p of (Inl e, p) \<Rightarrow> (Inl e, p) | (Inr _, p) \<Rightarrow>
      let savedPosition = position p in
      case readUntil E Space p of
        (Inl e, p) \<Rightarrow> if isPanic e then (Inl e, p) else parseMessage_text savedPosition p
      | (Inr operation, p) \<Rightarrow>
          if isOperationName operation then parseMessage_operation n E operation p
          else parseMessage_text savedPosition p)"

definition panicOf :: "('a, 'f) res \<Rightarrow> error option" where
  "panicOf r = (case fst r of Inl e \<Rightarrow> if isPanic e then Some e else None | Inr _ \<Rightarrow> None)"

text \<open>The ctime branch of \<^verbatim>\<open>parseTimestamp\<close>.\<close>

definition parseTimestamp_ctime :: "'f env \<Rightarrow> 'f parser \<Rightarrow> (rune list, 'f) res" where
  "parseTimestamp_ctime E p =
     (let r1 = readUntil E Space p in
      case panicOf r1 of Some e \<Rightarrow> (Inl e, snd r1) | None \<Rightarrow>
      case validDayOfWeek (goPair r1) of Inl e \<Rightarrow> (Inl e, snd r1) | Inr dayOfWeek \<Rightarrow>
      case eatWhitespace E (snd r1) of (Inl e, p) \<Rightarrow> (Inl e, p) | (Inr _, p) \<Rightarrow>
      let r2 = readUntil E Space p in
      case panicOf r2 of Some e \<Rightarrow> (Inl e, snd r2) | None \<Rightarrow>
      case validMonth (goPair r2) of Inl e \<Rightarrow> (Inl e, snd r2) | Inr month \<Rightarrow>
      case eatWhitespace E (snd r2) of (Inl e, p) \<Rightarrow> (Inl e, p) | (Inr _, p) \<Rightarrow>
      case readUntil E Space p of (Inl e, p) \<Rightarrow> (Inl e, p) | (Inr day, p) \<Rightarrow>
      case eatWhitespace E p of (Inl e, p) \<Rightarrow> (Inl e, p) | (Inr _, p) \<Rightarrow>
      case readUntil E Space p of (Inl e, p) \<Rightarrow> (Inl e, p) | (Inr time, p) \<Rightarrow>
      (Inr (dayOfWeek @ str '' '' @ month @ str '' '' @ day @ str '' '' @ time), p))"

definition parseTimestamp :: "'f env \<Rightarrow> 'f parser \<Rightarrow> (unit, 'f) res" where
  "parseTimestamp E p =
     (case eatWhitespace E p of (Inl e, p) \<Rightarrow> (Inl e, p) | (Inr _, p) \<Rightarrow>
      case lookahead p 0 of Inl e \<Rightarrow> (Inl e, p) | Inr c \<Rightarrow>
      case (if unicodeIs E Number c then readUntil E Space p
            else parseTimestamp_ctime E p) of
        (Inl e, p) \<Rightarrow> (Inl e, p)
      | (Inr readTimestamp, p) \<Rightarrow>
          (Inr (), setField (str ''timestamp'') (VString readTimestamp) p))"

definition parseSeverity :: "'f env \<Rightarrow> 'f parser \<Rightarrow> (unit, 'f) res" where
  "parseSeverity E p =
     (case eatWhitespace E p of (Inl e, p) \<Rightarrow> (Inl e, p) | (Inr _, p) \<Rightarrow>
      case advance p of (Inl e, p) \<Rightarrow> (Inl e, p) | (Inr sev, p) \<Rightarrow>
      case severityToString sev of
        Inl e \<Rightarrow> (Inl e, setField (str ''severity'') (VString []) p)
      | Inr s \<Rightarrow>
          expectRange E Space ExpectedSpaceAfterSeverity
            (setField (str ''severity'') (VString s) p))"

definition parseComponent :: "'f env \<Rightarrow> 'f parser \<Rightarrow> (unit, 'f) res" where
  "parseComponent E p =
     (case eatWhitespace E p of (Inl e, p) \<Rightarrow> (Inl e, p) | (Inr _, p) \<Rightarrow>
      case lookahead p 0 of Inl e \<Rightarrow> (Inl e, p) | Inr c \<Rightarrow>
      case (if c = rn CHR ''-''
            then (case advance p of
                    (Inl e, p) \<Rightarrow> (Inl e, p)
                  | (Inr _, p) \<Rightarrow> (Inr (str ''-''), p))
            else readAlphaIdentifier E p) of
        (Inl e, p) \<Rightarrow> (Inl e, p)
      | (Inr component, p) \<Rightarrow>
          (Inr (), setField (str ''component'') (VString component) p))"

definition parseContext :: "'f env \<Rightarrow> 'f parser \<Rightarrow> (unit, 'f) res" where
  "parseContext E p =
     (case eatWhitespace E p of (Inl e, p) \<Rightarrow> (Inl e, p) | (Inr _, p) \<Rightarrow>
      case expect (rn CHR ''['') p of (Inl e, p) \<Rightarrow> (Inl e, p) | (Inr _, p) \<Rightarrow>
      case readUntilRune (rn CHR '']'') p of
        (Inl e, p) \<Rightarrow> (Inl e, p) | (Inr context, p) \<Rightarrow>
      case advance p of (Inl e, p) \<Rightarrow> (Inl e, p) | (Inr _, p) \<Rightarrow>
      (Inr (), setField (str ''context'') (VString context) p))"

definition Parse :: "nat \<Rightarrow> 'f env \<Rightarrow> 'f parser \<Rightarrow> (unit, 'f) res" where
  "Parse n E p =
     (case parseTimestamp E p of (Inl e, p) \<Rightarrow> (Inl e, p) | (Inr _, p) \<Rightarrow>
      case lookahead p 0 of Inl e \<Rightarrow> (Inl e, p) | Inr c \<Rightarrow>
      if c = rn CHR ''['' then (Inl PanicUnsupportedVersion, p) else
      case parseSeverity E p of (Inl e, p) \<Rightarrow> (Inl e, p) | (Inr _, p) \<Rightarrow>
      case parseComponent E p of (Inl e, p) \<Rightarrow> (Inl e, p) | (Inr _, p) \<Rightarrow>
      case parseContext E p of (Inl e, p) \<Rightarrow> (Inl e, p) | (Inr _, p) \<Rightarrow>
      parseMessage n E p)"

definition ParseLogLine ::
  "nat \<Rightarrow> 'f env \<Rightarrow> rune list \<Rightarrow> error + (rune list \<times> 'f jvalue) list" where
  "ParseLogLine n E input =
     (case Parse n E (Init input) of
        (Inl e, p) \<Rightarrow> Inl e
      | (Inr _, p) \<Rightarrow> Inr (Fields p))"

text \<open>
  An environment for ASCII text: no rune above ASCII is in any table, and the numbers are
  the unsigned decimal literals, read as integers. On lines of ASCII text whose numbers
  are decimal literals below \<open>2 ^ 53\<close> it agrees with the Go library.
\<close>

fun decimalValue :: "int \<Rightarrow> rune list \<Rightarrow> int option" where
  "decimalValue acc [] = Some acc"
| "decimalValue acc (r # s) =
     (if 48 \<le> r \<and> r \<le> 57 then decimalValue (10 * acc + (r - 48)) s else None)"

definition asciiEnv :: "int env" where
  "asciiEnv =
     \<lparr>uniTable = (\<lambda>rt r. False),
      ParseFloat = (\<lambda>s. if s = [] then None else decimalValue 0 s),
      floatIsIntegral = (\<lambda>x. True),
      floatToInt64 = (\<lambda>x. x)\<rparr>"

section \<open>Vocabulary of the statements\<close>

definition rest :: "'f parser \<Rightarrow> rune list" where
  "rest p = drop (position p) (runes p)"

text \<open>
  The fact about the tables above ASCII that the statements about identifiers rest on:
  the general categories are disjoint, so no separator is a letter or a digit.
\<close>

definition envOK :: "'f env \<Rightarrow> bool" where
  "envOK E = (\<forall>r. uniTable E Space r \<longrightarrow> \<not> uniTable E Letter r \<and> \<not> uniTable E Digit r)"

text \<open>What a method that only moves the cursor leaves alone.\<close>

abbreviation frame :: "'f parser \<Rightarrow> 'f parser \<Rightarrow> bool" where
  "frame p p' \<equiv> Fields p' = Fields p \<and> runes p' = runes p \<and> Buffer p' = Buffer p"

text \<open>The keys every successful parse stores first, and the order the specification gives.\<close>

definition baseKeys :: "rune list list" where
  "baseKeys = [str ''timestamp'', str ''severity'', str ''component'', str ''context'']"






text \<open>
  The next whitespace-delimited token at the cursor, and the text from the cursor to the
  end of the line.
\<close>

definition nextToken :: "'f env \<Rightarrow> 'f parser \<Rightarrow> rune list" where
  "nextToken E p = takeWhile (\<lambda>r. \<not> unicodeIs E Space r \<and> r \<noteq> endRune) (rest p)"

definition restOfLine :: "'f parser \<Rightarrow> rune list" where
  "restOfLine p = takeWhile (\<lambda>r. r \<noteq> endRune) (rest p)"



text \<open>The state of a parser that starts on a text, with an empty record.\<close>

definition atRunes :: "rune list \<Rightarrow> 'f parser" where
  "atRunes rs = \<lparr>Buffer = rs, runes = rs @ [endRune], position = 0, Fields = []\<rparr>"

definition line_query_alone :: "rune list" where
  "line_query_alone = str ''2016-01-01T00:00:00.000Z I QUERY [conn1] query''"

definition prefix_state :: "nat \<Rightarrow> (rune list \<times> int jvalue) list \<Rightarrow> int parser" where
  "prefix_state k fs = (Init line_query_alone)\<lparr>position := k, Fields := fs\<rparr>"


text \<open>Whether a string occurs inside another one.\<close>

primrec hasInfix :: "rune list \<Rightarrow> rune list \<Rightarrow> bool" where
  "hasInfix xs [] = (xs = [])"
| "hasInfix xs (y # ys) = (take (length xs) (y # ys) = xs \<or> hasInfix xs ys)"

definition backslash :: rune where
  "backslash = 92"

text \<open>
  The double-quoted text \<open>a\"b\<close> (an escaped quote inside), the text \<open>a\\b\<close> followed
  by a comma, and an ObjectId with its hexadecimal payload.
\<close>

definition text_escaped_quote :: "rune list" where
  "text_escaped_quote = [dquote, rn CHR ''a'', backslash, dquote, rn CHR ''b'', dquote]"

definition text_two_backslashes :: "rune list" where
  "text_two_backslashes =
     [dquote, rn CHR ''a'', backslash, backslash, rn CHR ''b'', dquote, rn CHR '','']"

definition text_objectid :: "rune list" where
  "text_objectid = str ''ObjectId('' @ [dquote] @ str ''507f1f77bcf86cd799439011'' @ [dquote]
     @ str '') }''"

definition text_hex_string :: "rune list" where
  "text_hex_string = [dquote] @ str ''507f1f77bcf86cd799439011'' @ [dquote] @ str '' }''"

text \<open>
  The instant \<^verbatim>\<open>time.Unix(sec, nsec)\<close> denotes, in nanoseconds since the epoch.
\<close>

definition unixNanos :: "int \<Rightarrow> int \<Rightarrow> int" where
  "unixNanos sec nsec = sec * 1000000000 + nsec"

definition text_new_date :: "rune list" where
  "text_new_date = str ''new Date(1447201207123) }''"

definition text_new_other :: "rune list" where
  "text_new_other = str ''new Foo(1) }''"

definition text_new_date_space :: "rune list" where
  "text_new_date_space = str ''new Date 5 }''"

text \<open>A double-quoted string that starts with a brace, followed by comma and space.\<close>

definition text_braced_string :: "rune list" where
  "text_braced_string = dquote # str ''{a}'' @ dquote # str '', b''"

text \<open>
  The scan for the end of a quoted JSON blob, on the text after the opening quote: the
  offset of the terminating comma, found after quote, comma, space outside quotes or after
  three dots, quote, comma, space inside quotes, where every quote passed toggles the
  state; \<open>None\<close> when the end of the input comes first.
\<close>

fun scanBlob :: "bool \<Rightarrow> rune list \<Rightarrow> nat option" where
  "scanBlob quoted [] = None"
| "scanBlob quoted (r # rs) =
     (if \<not> quoted \<and> take 3 (r # rs) = quoteCommaSpace then Some 1
      else if quoted \<and> take 6 (r # rs) = dotsQuoteCommaSpace then Some 4
      else if rs = [] \<or> hd rs = endRune then None
      else map_option Suc (scanBlob (if r = dquote then \<not> quoted else quoted) rs))"

text \<open>
  The blob of the specification's sixth scenario, a truncated one, and one that the end of
  the line cuts.
\<close>

definition blob_alert :: "rune list" where
  "blob_alert = str ''{'' @ [dquote] @ str ''alert'' @ [dquote] @ str '':'' @ [dquote]
     @ str ''x'' @ [dquote] @ str '','' @ [dquote] @ str ''id'' @ [dquote] @ str '':''
     @ [dquote] @ str ''1'' @ [dquote] @ str ''}''"

definition text_blob :: "rune list" where
  "text_blob = [dquote] @ blob_alert @ [dquote] @ str '', next: 1 }''"

definition text_blob_truncated :: "rune list" where
  "text_blob_truncated = [dquote] @ str ''{'' @ [dquote] @ str ''alert'' @ [dquote]
     @ str '':'' @ [dquote] @ str ''some...'' @ [dquote] @ str '', id: 1 }''"

definition text_blob_cut :: "rune list" where
  "text_blob_cut = [dquote] @ str ''{'' @ [dquote] @ str ''alert'' @ [dquote] @ str '':''
     @ [dquote] @ str ''x''"

text \<open>A method moves the cursor forward only, and fuel is no concern of its own.\<close>

abbreviation advances :: "'f parser \<Rightarrow> (error + 'a) \<Rightarrow> 'f parser \<Rightarrow> bool" where
  "advances p r p' \<equiv> position p \<le> position p' \<and> r \<noteq> Inl OutOfFuel"



text \<open>
  A line whose plan summary holds a stage with a document that does not parse, and the
  text of that line from the stage on.
\<close>

definition text_stage_bad_document :: "rune list" where
  "text_stage_bad_document = str ''IXSCAN { a: ? } b:1 2ms''"

definition line_stage_bad_document :: "rune list" where
  "line_stage_bad_document =
     str ''2016-01-01T00:00:00.000Z I QUERY [conn1] query test.foo planSummary: ''
     @ text_stage_bad_document"

text \<open>The character tabulation, which is white space and no separator.\<close>

definition tab :: rune where
  "tab = 9"

section \<open>The scanning loops and the readers\<close>

lemma drop_ConsD:
  assumes "drop i rs = a # t"
  shows "i < length rs" and "rs ! i = a" and "drop (Suc i) rs = t"
proof -
  show len: "i < length rs"
    using assms by (cases "i < length rs") auto
  from Cons_nth_drop_Suc [OF len] assms show "rs ! i = a" and "drop (Suc i) rs = t"
    by auto
qed

lemma drop_appendD:
  assumes "drop i rs = xs @ zs"
  shows "drop (i + length xs) rs = zs" and "take (length xs) (drop i rs) = xs"
proof -
  have "drop (length xs) (drop i rs) = zs"
    using assms by simp
  then show "drop (i + length xs) rs = zs"
    by (simp add: add.commute)
  show "take (length xs) (drop i rs) = xs"
    using assms by simp
qed

lemma scanWhile_SomeD:
  "scanWhile c rs i = Some j \<Longrightarrow> i \<le> j \<and> j < length rs \<and> \<not> c (rs ! j)"
proof (induction c rs i rule: scanWhile.induct)
  case (1 c rs i)
  from "1.prems" show ?case
    by (subst (asm) scanWhile.simps) (use "1.IH" in \<open>auto split: if_splits\<close>)
qed

lemma scanWhile_between:
  "scanWhile c rs i = Some j \<Longrightarrow> i \<le> k \<Longrightarrow> k < j \<Longrightarrow> c (rs ! k)"
proof (induction c rs i rule: scanWhile.induct)
  case (1 c rs i)
  show ?case
  proof (cases "k = i")
    case True
    from "1.prems" show ?thesis
      by (subst (asm) scanWhile.simps) (use True in \<open>auto split: if_splits\<close>)
  next
    case False
    from "1.prems" False show ?thesis
      by (subst (asm) scanWhile.simps) (use "1.IH" in \<open>auto split: if_splits\<close>)
  qed
qed

lemma scanWhile_NoneD:
  "scanWhile c rs i = None \<Longrightarrow> i \<le> k \<Longrightarrow> k < length rs \<Longrightarrow> c (rs ! k)"
proof (induction c rs i rule: scanWhile.induct)
  case (1 c rs i)
  show ?case
  proof (cases "k = i")
    case True
    from "1.prems" show ?thesis
      by (subst (asm) scanWhile.simps) (use True in \<open>auto split: if_splits\<close>)
  next
    case False
    from "1.prems" False show ?thesis
      by (subst (asm) scanWhile.simps) (use "1.IH" in \<open>auto split: if_splits\<close>)
  qed
qed

lemma scanWhile_shape:
  "drop i rs = xs @ y # ys \<Longrightarrow> \<forall>x\<in>set xs. c x \<Longrightarrow> \<not> c y \<Longrightarrow>
     scanWhile c rs i = Some (i + length xs)"
proof (induction xs arbitrary: i)
  case Nil
  then have "i < length rs" "rs ! i = y"
    using drop_ConsD [of i rs y ys] by auto
  with Nil show ?case
    by (subst scanWhile.simps) simp
next
  case (Cons x xs)
  then have d: "i < length rs" "rs ! i = x" "drop (Suc i) rs = xs @ y # ys"
    using drop_ConsD [of i rs x "xs @ y # ys"] by auto
  from Cons.IH [OF d(3)] Cons.prems have "scanWhile c rs (Suc i) = Some (Suc i + length xs)"
    by simp
  with d Cons.prems show ?case
    by (subst scanWhile.simps) simp
qed

lemma rest_position [simp]: "rest (p\<lparr>position := k\<rparr>) = drop k (runes p)"
  by (simp add: rest_def)

lemma rest_setField [simp]: "rest (setField k v p) = rest p"
  by (simp add: rest_def setField_def)

lemma lookahead_rest: "rest p = y # ys \<Longrightarrow> lookahead p 0 = Inr y"
  using drop_ConsD [of "position p" "runes p" y ys] by (simp add: rest_def lookahead_def)

lemma lookahead1_rest: "rest p = x # y # ys \<Longrightarrow> lookahead p 1 = Inr y"
  using drop_ConsD [of "position p" "runes p" x "y # ys"]
    drop_ConsD [of "Suc (position p)" "runes p" y ys]
  by (simp add: rest_def lookahead_def)

lemma advance_rest:
  "rest p = y # ys \<Longrightarrow> advance p = (Inr y, p\<lparr>position := position p + 1\<rparr>)"
  using drop_ConsD [of "position p" "runes p" y ys] by (simp add: rest_def advance_def)

lemma expect_rest:
  "rest p = y # ys \<Longrightarrow>
     expect c p = (if y \<noteq> c then Inl (Expected c y) else Inr (), p\<lparr>position := position p + 1\<rparr>)"
  by (simp add: expect_def advance_rest)

lemma rest_step: "rest p = y # ys \<Longrightarrow> drop (position p + 1) (runes p) = ys"
  using drop_ConsD [of "position p" "runes p" y ys] by (simp add: rest_def)

lemma rest_skip: "rest p = xs @ zs \<Longrightarrow> drop (position p + length xs) (runes p) = zs"
  using drop_appendD [of "position p" "runes p" xs zs] by (simp add: rest_def)

lemma slice_rest: "rest p = xs @ zs \<Longrightarrow> slice (runes p) (position p) (position p + length xs) = xs"
  using drop_appendD [of "position p" "runes p" xs zs] by (simp add: rest_def slice_def)

lemma nth_rest: "rest p = xs @ y # ys \<Longrightarrow> runes p ! (position p + length xs) = y"
  using rest_skip [of p xs "y # ys"] drop_ConsD [of "position p + length xs" "runes p" y ys]
  by simp

lemma eatWhitespace_shape:
  assumes "rest p = xs @ y # ys" "\<forall>x\<in>set xs. unicodeIs E Space x" "\<not> unicodeIs E Space y"
  shows "eatWhitespace E p = (Inr (), p\<lparr>position := position p + length xs\<rparr>)"
  using scanWhile_shape [of "position p" "runes p" xs y ys "unicodeIs E Space"] assms
  by (simp add: eatWhitespace_def rest_def)

lemma readUntilRune_shape:
  assumes "rest p = xs @ u # ys" "\<forall>x\<in>set xs. x \<noteq> u \<and> x \<noteq> endRune"
  shows "readUntilRune u p = (Inr xs, p\<lparr>position := position p + length xs\<rparr>)"
  using scanWhile_shape [of "position p" "runes p" xs u ys "\<lambda>r. r \<noteq> u \<and> r \<noteq> endRune"] assms
    slice_rest [of p xs "u # ys"] nth_rest [of p xs u ys]
  by (simp add: readUntilRune_def rest_def)

lemma readUntilRune_end:
  assumes "rest p = xs @ endRune # ys" "\<forall>x\<in>set xs. x \<noteq> u \<and> x \<noteq> endRune" "u \<noteq> endRune"
  shows "readUntilRune u p = (Inl (EndBeforeRune u), p)"
  using scanWhile_shape [of "position p" "runes p" xs endRune ys "\<lambda>r. r \<noteq> u \<and> r \<noteq> endRune"]
    assms nth_rest [of p xs endRune ys]
  by (simp add: readUntilRune_def rest_def)


lemma readUntil_end:
  assumes "rest p = xs @ endRune # ys" "\<forall>x\<in>set xs. x \<noteq> endRune \<and> \<not> unicodeIs E rt x"
  shows "readUntil E rt p = (Inl EndBeforeRange, p)"
  using scanWhile_shape [of "position p" "runes p" xs endRune ys
      "\<lambda>r. r \<noteq> endRune \<and> \<not> unicodeIs E rt r"] assms nth_rest [of p xs endRune ys]
  by (simp add: readUntil_def rest_def)

lemma readWhile_shape:
  assumes "rest p = xs @ y # ys" "\<forall>x\<in>set xs. x \<noteq> endRune \<and> check E x cs"
    "y \<noteq> endRune" "\<not> check E y cs"
  shows "readWhile E cs p = (Inr xs, p\<lparr>position := position p + length xs\<rparr>)"
  using scanWhile_shape [of "position p" "runes p" xs y ys "\<lambda>r. r \<noteq> endRune \<and> check E r cs"]
    assms slice_rest [of p xs "y # ys"] nth_rest [of p xs y ys]
  by (simp add: readWhile_def rest_def)

lemma readJSONIdentifier_shape:
  assumes "rest p = xs @ y # ys" "\<forall>x\<in>set xs. check E x jsonIdentChecks"
    "\<not> check E y jsonIdentChecks"
  shows "readJSONIdentifier E p = (Inr xs, p\<lparr>position := position p + length xs\<rparr>)"
  using scanWhile_shape [of "position p" "runes p" xs y ys "\<lambda>r. check E r jsonIdentChecks"]
    assms slice_rest [of p xs "y # ys"]
  by (simp add: readJSONIdentifier_def rest_def)

lemma readNumber_shape:
  assumes "rest p = xs @ y # ys" "\<forall>x\<in>set xs. check E x numberChecks"
    "\<not> check E y numberChecks" "y \<noteq> endRune"
  shows "readNumber E p =
           (case ParseFloat E xs of None \<Rightarrow> Inl (NumError xs) | Some d \<Rightarrow> Inr d,
            p\<lparr>position := position p + length xs\<rparr>)"
  using scanWhile_shape [of "position p" "runes p" xs y ys "\<lambda>r. check E r numberChecks"]
    assms slice_rest [of p xs "y # ys"] nth_rest [of p xs y ys]
  by (simp add: readNumber_def rest_def split: option.splits)

lemma scanWhile_all:
  "drop i rs = xs \<Longrightarrow> \<forall>x\<in>set xs. c x \<Longrightarrow> scanWhile c rs i = None"
proof (induction xs arbitrary: i)
  case Nil
  then show ?case
    by (subst scanWhile.simps) simp
next
  case (Cons x xs)
  then have d: "i < length rs" "rs ! i = x" "drop (Suc i) rs = xs"
    using drop_ConsD [of i rs x xs] by auto
  from Cons.IH [OF d(3)] Cons.prems have "scanWhile c rs (Suc i) = None"
    by simp
  with d Cons.prems show ?case
    by (subst scanWhile.simps) simp
qed

text \<open>
  \<^verbatim>\<open>readNumber\<close> on any text: the number is the longest prefix of number runes, and the
  rune after it decides.
\<close>

lemma readNumber_rest:
  assumes "rest p = zs"
  shows "readNumber E p =
     (case dropWhile (\<lambda>r. check E r numberChecks) zs of
        [] \<Rightarrow> (Inl PanicIndexOutOfRange, p)
      | z # zs' \<Rightarrow>
          if z = endRune then (Inl EndBeforeRange, p)
          else (case ParseFloat E (takeWhile (\<lambda>r. check E r numberChecks) zs) of
                  None \<Rightarrow> Inl (NumError (takeWhile (\<lambda>r. check E r numberChecks) zs))
                | Some d \<Rightarrow> Inr d,
                p\<lparr>position := position p
                    + length (takeWhile (\<lambda>r. check E r numberChecks) zs)\<rparr>))"
proof -
  let ?c = "\<lambda>r. check E r numberChecks"
  have split: "zs = takeWhile ?c zs @ dropWhile ?c zs"
    by simp
  have tw: "\<forall>x\<in>set (takeWhile ?c zs). ?c x"
    by (auto dest: set_takeWhileD)
  show ?thesis
  proof (cases "dropWhile ?c zs")
    case Nil
    then have "\<forall>x\<in>set zs. ?c x"
      by (simp add: dropWhile_eq_Nil_conv)
    with assms have sw: "scanWhile ?c (runes p) (position p) = None"
      by (intro scanWhile_all [where xs = zs]) (simp_all add: rest_def)
    show ?thesis
      unfolding Nil by (simp add: readNumber_def sw)
  next
    case (Cons z zs')
    then have nz: "\<not> ?c z"
      using hd_dropWhile [of ?c zs] by (metis list.sel(1) list.distinct(1))
    have r: "rest p = takeWhile ?c zs @ z # zs'"
      using assms split Cons by simp
    show ?thesis
    proof (cases "z = endRune")
      case True
      from scanWhile_shape [of "position p" "runes p" "takeWhile ?c zs" z zs' ?c] r tw nz
      have "scanWhile ?c (runes p) (position p) = Some (position p + length (takeWhile ?c zs))"
        by (simp add: rest_def)
      with True nth_rest [OF r] Cons show ?thesis
        by (simp add: readNumber_def)
    next
      case False
      from readNumber_shape [OF r tw nz False] Cons False show ?thesis
        by simp
    qed
  qed
qed

text \<open>
  Separators and white space on the character tabulation: \<^verbatim>\<open>eatWhitespace\<close> does not
  skip it, \<^verbatim>\<open>readUntil(unicode.Space)\<close> reads through it, \<^verbatim>\<open>expectRange\<close> refuses it,
  and \<^verbatim>\<open>readUpcaseIdentifier\<close>, which asks \<^verbatim>\<open>unicode.IsSpace\<close>, stops on it.
\<close>

lemma separators_and_white_space:
  "eatWhitespace asciiEnv (atRunes (tab # str ''12ms'') :: int parser)
     = (Inr (), atRunes (tab # str ''12ms''))"
  "readUntil asciiEnv Space (atRunes (str ''a'' @ tab # str ''b c'') :: int parser)
     = (Inr (str ''a'' @ tab # str ''b''), (atRunes (str ''a'' @ tab # str ''b c''))\<lparr>position := 3\<rparr>)"
  "expectRange asciiEnv Space ExpectedSpaceAfterSeverity (atRunes (tab # str ''QUERY'') :: int parser)
     = (Inl ExpectedSpaceAfterSeverity, (atRunes (tab # str ''QUERY''))\<lparr>position := 1\<rparr>)"
  "readUpcaseIdentifier asciiEnv (atRunes (str ''IXSCAN'' @ tab # str ''{'') :: int parser)
     = (Inr (str ''IXSCAN''), (atRunes (str ''IXSCAN'' @ tab # str ''{''))\<lparr>position := 6\<rparr>)"
  by code_simp+

section \<open>The version test of \<^verbatim>\<open>Parse\<close>\<close>

lemmas cursor_defs = lookahead_def advance_def expect_def expectRange_def eatWhitespace_def
  readUntil_def readUntilRune_def readWhile_def readJSONIdentifier_def readUpcaseIdentifier_def
  readAlphaIdentifier_def readNumber_def readDuration_def slice_def setField_def
  unicodeIs_def endRune_def rn_def str_def dquote_def squote_def

lemmas line_defs = ParseLogLine_def Parse_def Init_def parseTimestamp_def parseTimestamp_ctime_def
  parseSeverity_def parseComponent_def parseContext_def parseMessage_def parseMessage_text_def
  parseMessage_operation_def panicOf_def goPair_def validDayOfWeek_def validMonth_def
  byteLen_def runeLen_def isOperationName_def keys_def

lemma lookahead_setField [simp]: "lookahead (setField k v p) a = lookahead p a"
  by (simp add: lookahead_def setField_def)

lemma readUntil_Space_stops:
  assumes "readUntil E Space p = (Inr s, p')"
  shows "\<exists>c. lookahead p' 0 = Inr c \<and> unicodeIs E Space c"
proof -
  from assms obtain j where j: "scanWhile (\<lambda>r. r \<noteq> endRune \<and> \<not> unicodeIs E Space r)
        (runes p) (position p) = Some j" "runes p ! j \<noteq> endRune" "p' = p\<lparr>position := j\<rparr>"
    by (auto simp: readUntil_def split: option.splits if_splits)
  from scanWhile_SomeD [OF j(1)] j(2) have "j < length (runes p)" "unicodeIs E Space (runes p ! j)"
    by auto
  with j(3) show ?thesis
    by (simp add: lookahead_def)
qed

lemma parseTimestamp_ctime_stops:
  assumes "parseTimestamp_ctime E p = (Inr s, p')"
  shows "\<exists>c. lookahead p' 0 = Inr c \<and> unicodeIs E Space c"
proof -
  from assms obtain q t where "readUntil E Space q = (Inr t, p')"
    by (auto simp: parseTimestamp_ctime_def Let_def
        split: option.splits sum.splits prod.splits)
  then show ?thesis
    by (rule readUntil_Space_stops)
qed

lemma parseTimestamp_stops:
  assumes "parseTimestamp E p = (Inr u, p')"
  shows "\<exists>c. lookahead p' 0 = Inr c \<and> unicodeIs E Space c"
proof -
  from assms obtain q s where q: "p' = setField (str ''timestamp'') (VString s) q"
    and "(\<exists>q'. readUntil E Space q' = (Inr s, q)) \<or> (\<exists>q'. parseTimestamp_ctime E q' = (Inr s, q))"
    by (auto simp: parseTimestamp_def split: sum.splits prod.splits if_splits)
  then have "\<exists>c. lookahead q 0 = Inr c \<and> unicodeIs E Space c"
    using readUntil_Space_stops parseTimestamp_ctime_stops by blast
  with q show ?thesis
    by simp
qed

lemma Parse_version_test_never_fires:
  assumes "parseTimestamp E p = (Inr u, p')"
  shows "lookahead p' 0 \<noteq> Inr (rn CHR ''['')"
proof
  assume "lookahead p' 0 = Inr (rn CHR ''['')"
  with parseTimestamp_stops [OF assms] have "unicodeIs E Space (rn CHR ''['')"
    by auto
  then show False
    by (simp add: unicodeIs_def rn_def)
qed

text \<open>
  Claim C2. A line whose timestamp is followed, after whitespace, by \<open>[\<close> should fail with
  the unsupported-version panic before severity is parsed. \<^verbatim>\<open>parseTimestamp\<close> leaves the
  cursor on the whitespace that ends the timestamp and \<^verbatim>\<open>Parse\<close> tests that rune without
  skipping it, so the test never fires (\<open>Parse_version_test_never_fires\<close>). On the
  pre-3.0 line below the parser goes on to \<^verbatim>\<open>parseSeverity\<close>, stores the key
  \<open>severity\<close> and returns the unknown-severity error for the rune \<open>[\<close>.
\<close>

theorem C2_pre30_line_reaches_severity:
  "fst (Parse n E (Init (str ''Wed Nov  4 12:00:00 [conn1] query test.foo 0ms'')))
     = Inl (UnknownSeverity (rn CHR ''[''))
   \<and> keys (snd (Parse n E (Init (str ''Wed Nov  4 12:00:00 [conn1] query test.foo 0ms''))))
     = [str ''timestamp'', str ''severity'']"
  by (simp add: line_defs cursor_defs scanWhile.simps)

section \<open>Methods that only move the cursor\<close>

named_theorems frameD

lemma advance_frame [frameD]: "advance p = (r, p') \<Longrightarrow> frame p p'"
  by (auto simp: advance_def split: if_splits)

lemma expect_frame [frameD]: "expect c p = (r, p') \<Longrightarrow> frame p p'"
  by (auto simp: expect_def split: prod.splits sum.splits if_splits dest!: frameD)

lemma expectRange_frame [frameD]: "expectRange E rt e p = (r, p') \<Longrightarrow> frame p p'"
  by (auto simp: expectRange_def split: prod.splits sum.splits if_splits dest!: frameD)

lemma eatWhitespace_frame [frameD]: "eatWhitespace E p = (r, p') \<Longrightarrow> frame p p'"
  by (auto simp: eatWhitespace_def split: option.splits)

lemma readUntil_frame [frameD]: "readUntil E rt p = (r, p') \<Longrightarrow> frame p p'"
  by (auto simp: readUntil_def split: option.splits if_splits)

lemma readUntilRune_frame [frameD]: "readUntilRune u p = (r, p') \<Longrightarrow> frame p p'"
  by (auto simp: readUntilRune_def split: option.splits if_splits)

lemma readWhile_frame [frameD]: "readWhile E cs p = (r, p') \<Longrightarrow> frame p p'"
  by (auto simp: readWhile_def split: option.splits if_splits)

lemma readJSONIdentifier_frame [frameD]: "readJSONIdentifier E p = (r, p') \<Longrightarrow> frame p p'"
  by (auto simp: readJSONIdentifier_def split: option.splits)

lemma readUpcaseIdentifier_frame [frameD]: "readUpcaseIdentifier E p = (r, p') \<Longrightarrow> frame p p'"
  by (auto simp: readUpcaseIdentifier_def split: sum.splits)

lemma readAlphaIdentifier_frame [frameD]: "readAlphaIdentifier E p = (r, p') \<Longrightarrow> frame p p'"
  by (auto simp: readAlphaIdentifier_def split: sum.splits)

lemma readNumber_frame [frameD]: "readNumber E p = (r, p') \<Longrightarrow> frame p p'"
  by (auto simp: readNumber_def Let_def split: option.splits if_splits)

lemma readDuration_frame [frameD]: "readDuration E p = (r, p') \<Longrightarrow> frame p p'"
  by (auto simp: readDuration_def Let_def split: option.splits if_splits)

lemma parseStringValue_frame [frameD]: "parseStringValue q p = (r, p') \<Longrightarrow> frame p p'"
  by (auto simp: parseStringValue_def split: prod.splits sum.splits dest!: frameD)

lemma parseJSONValue_blob_frame [frameD]: "parseJSONValue_blob p = (r, p') \<Longrightarrow> frame p p'"
  by (auto simp: parseJSONValue_blob_def Let_def split: sum.splits)

lemma parseJSONValue_new_frame [frameD]: "parseJSONValue_new E p = (r, p') \<Longrightarrow> frame p p'"
  by (auto simp: parseJSONValue_new_def Let_def split: prod.splits sum.splits if_splits
      dest!: frameD)

lemma parseJSONValue_Timestamp_frame [frameD]:
  "parseJSONValue_Timestamp E p = (r, p') \<Longrightarrow> frame p p'"
  by (auto simp: parseJSONValue_Timestamp_def split: prod.splits sum.splits if_splits
      dest!: frameD)

lemma parseJSONValue_ObjectId_frame [frameD]:
  "parseJSONValue_ObjectId E p = (r, p') \<Longrightarrow> frame p p'"
  by (auto simp: parseJSONValue_ObjectId_def split: prod.splits sum.splits if_splits
      dest!: frameD)

lemma parseJSONValue_letter_frame [frameD]:
  "parseJSONValue_letter E p = (r, p') \<Longrightarrow> frame p p'"
  by (auto simp: parseJSONValue_letter_def split: prod.splits sum.splits if_splits
      dest!: frameD)

lemma parseJSON_frame:
  "(\<forall>p r p'. parseJSONValue n E p = (r, p') \<longrightarrow> frame p p')
   \<and> (\<forall>rv p r p'. parseJSONMapLoop n E rv p = (r, p') \<longrightarrow> frame p p')
   \<and> (\<forall>rv p r p'. parseJSONArrayLoop n E rv p = (r, p') \<longrightarrow> frame p p')"
proof (induction n)
  case 0
  show ?case by simp
next
  case (Suc n)
  note ihV = Suc.IH [THEN conjunct1, rule_format]
  note ihM = Suc.IH [THEN conjunct2, THEN conjunct1, rule_format]
  note ihA = Suc.IH [THEN conjunct2, THEN conjunct2, rule_format]
  have V: "frame p p'" if "parseJSONValue (Suc n) E p = (r, p')" for p r p'
    using that
    by (auto split: prod.splits sum.splits if_splits dest!: frameD ihM ihA)
  have M: "frame p p'" if "parseJSONMapLoop (Suc n) E rv p = (r, p')" for rv p r p'
    using that
    by (auto split: prod.splits sum.splits if_splits dest!: frameD ihV ihM)
  have A: "frame p p'" if "parseJSONArrayLoop (Suc n) E rv p = (r, p')" for rv p r p'
    using that
    by (auto split: prod.splits sum.splits if_splits dest!: frameD ihV ihA)
  from V M A show ?case
    by blast
qed

section \<open>What the field loop stores\<close>

lemma parseJSONMap_frame [frameD]: "parseJSONMap n E p = (r, p') \<Longrightarrow> frame p p'"
  using parseJSON_frame [of n E] by (auto simp: parseJSONMap_def)

lemma parseJSONArray_frame [frameD]: "parseJSONArray n E p = (r, p') \<Longrightarrow> frame p p'"
  using parseJSON_frame [of n E]
  by (auto simp: parseJSONArray_def split: prod.splits sum.splits if_splits dest!: frameD)

lemma parsePlanSummaryElement_frame [frameD]:
  "parsePlanSummaryElement n E p = (r, p') \<Longrightarrow> frame p p'"
  by (auto simp: parsePlanSummaryElement_def Let_def split: prod.splits sum.splits if_splits
      dest!: frameD)

lemma parsePlanSummaryLoop_frame [frameD]:
  "parsePlanSummaryLoop n E rv p = (r, p') \<Longrightarrow> frame p p'"
proof (induction n arbitrary: rv p)
  case 0
  then show ?case by simp
next
  case (Suc n)
  from Suc.prems show ?case
    by (auto simp: Let_def split: prod.splits sum.splits if_splits dest!: frameD Suc.IH)
qed




section \<open>The record of a successful parse\<close>

lemma parseTimestamp_ctime_frame [frameD]:
  assumes "parseTimestamp_ctime E p = (r, p')"
  shows "frame p p'"
proof -
  obtain a1 q1 where r1: "readUntil E Space p = (a1, q1)"
    by (cases "readUntil E Space p")
  show ?thesis
  proof (cases "panicOf (a1, q1) = None \<and> (\<exists>d. validDayOfWeek (goPair (a1, q1)) = Inr d)")
    case False
    with assms r1 show ?thesis
      by (auto simp: parseTimestamp_ctime_def Let_def split: option.splits sum.splits
          dest!: frameD)
  next
    case True
    then obtain d where d: "panicOf (a1, q1) = None" "validDayOfWeek (goPair (a1, q1)) = Inr d"
      by blast
    show ?thesis
    proof (cases "eatWhitespace E q1")
      case (Pair b q2)
      obtain a3 q3 where r3: "readUntil E Space q2 = (a3, q3)"
        by (cases "readUntil E Space q2")
      from r1 Pair r3 have fr: "frame p q1" "frame q1 q2" "frame q2 q3"
        by (auto dest!: frameD)
      from assms r1 d Pair r3 fr show ?thesis
        by (auto simp: parseTimestamp_ctime_def Let_def
            split: option.splits sum.splits prod.splits dest!: frameD)
    qed
  qed
qed

lemma parseTimestamp_Fields:
  assumes "parseTimestamp E p = (Inr u, p')"
  shows "(\<exists>s. Fields p' = Fields p @ [(str ''timestamp'', VString s)])
         \<and> runes p' = runes p \<and> Buffer p' = Buffer p"
  using assms
  by (auto simp: parseTimestamp_def setField_def split: prod.splits sum.splits if_splits
      dest!: frameD)

lemma parseSeverity_Fields:
  assumes "parseSeverity E p = (Inr u, p')"
  shows "(\<exists>s. Fields p' = Fields p @ [(str ''severity'', VString s)])
         \<and> runes p' = runes p \<and> Buffer p' = Buffer p"
  using assms
  by (auto simp: parseSeverity_def setField_def split: prod.splits sum.splits
      dest!: frameD)

lemma parseComponent_Fields:
  assumes "parseComponent E p = (Inr u, p')"
  shows "(\<exists>s. Fields p' = Fields p @ [(str ''component'', VString s)])
         \<and> runes p' = runes p \<and> Buffer p' = Buffer p"
  using assms
  by (auto simp: parseComponent_def setField_def split: prod.splits sum.splits if_splits
      dest!: frameD)

lemma parseContext_Fields:
  assumes "parseContext E p = (Inr u, p')"
  shows "(\<exists>s. Fields p' = Fields p @ [(str ''context'', VString s)])
         \<and> runes p' = runes p \<and> Buffer p' = Buffer p"
  using assms
  by (auto simp: parseContext_def setField_def split: prod.splits sum.splits if_splits
      dest!: frameD)



section \<open>The cursor moves forward only\<close>

named_theorems advD

lemma advance_adv [advD]: "advance p = (r, p') \<Longrightarrow> advances p r p'"
  by (auto simp: advance_def split: if_splits)

lemma expect_adv [advD]: "expect c p = (r, p') \<Longrightarrow> advances p r p'"
  by (auto simp: expect_def split: prod.splits sum.splits if_splits dest!: advD)

lemma expectRange_adv:
  "expectRange E rt e p = (r, p') \<Longrightarrow> e \<noteq> OutOfFuel \<Longrightarrow> advances p r p'"
  by (auto simp: expectRange_def split: prod.splits sum.splits if_splits dest!: advD)

lemma eatWhitespace_adv [advD]: "eatWhitespace E p = (r, p') \<Longrightarrow> advances p r p'"
  by (auto simp: eatWhitespace_def split: option.splits dest: scanWhile_SomeD)

lemma readUntil_adv [advD]: "readUntil E rt p = (r, p') \<Longrightarrow> advances p r p'"
  by (auto simp: readUntil_def split: option.splits if_splits dest: scanWhile_SomeD)

lemma readUntilRune_adv [advD]: "readUntilRune u p = (r, p') \<Longrightarrow> advances p r p'"
  by (auto simp: readUntilRune_def split: option.splits if_splits dest: scanWhile_SomeD)

lemma readWhile_adv [advD]: "readWhile E cs p = (r, p') \<Longrightarrow> advances p r p'"
  by (auto simp: readWhile_def split: option.splits if_splits dest: scanWhile_SomeD)

lemma readJSONIdentifier_adv [advD]: "readJSONIdentifier E p = (r, p') \<Longrightarrow> advances p r p'"
  by (auto simp: readJSONIdentifier_def split: option.splits dest: scanWhile_SomeD)

lemma scanIdent_result:
  "scanIdent E ill rs i = Inr j \<Longrightarrow> i \<le> j"
  "scanIdent E ill rs i = Inl e \<Longrightarrow> e \<noteq> OutOfFuel"
proof (induction E ill rs i rule: scanIdent.induct)
  case (1 E illegal rs i)
  {
    case 1
    then show ?case
      by (subst (asm) scanIdent.simps) (use "1.IH" in \<open>auto split: if_splits\<close>)
  next
    case 2
    then show ?case
      by (subst (asm) scanIdent.simps) (use "1.IH" in \<open>auto split: if_splits\<close>)
  }
qed

lemma readUpcaseIdentifier_adv [advD]:
  "readUpcaseIdentifier E p = (r, p') \<Longrightarrow> advances p r p'"
  by (auto simp: readUpcaseIdentifier_def split: sum.splits dest: scanIdent_result)

lemma readAlphaIdentifier_adv [advD]:
  "readAlphaIdentifier E p = (r, p') \<Longrightarrow> advances p r p'"
  by (auto simp: readAlphaIdentifier_def split: sum.splits dest: scanIdent_result)

lemma readNumber_adv [advD]: "readNumber E p = (r, p') \<Longrightarrow> advances p r p'"
  by (auto simp: readNumber_def Let_def split: option.splits if_splits dest: scanWhile_SomeD)

lemma readDuration_adv [advD]: "readDuration E p = (r, p') \<Longrightarrow> advances p r p'"
  by (auto simp: readDuration_def Let_def split: option.splits if_splits dest: scanWhile_SomeD)

lemma parseStringValue_adv [advD]: "parseStringValue q p = (r, p') \<Longrightarrow> advances p r p'"
  by (auto simp: parseStringValue_def split: prod.splits sum.splits dest!: advD)

lemma matchAhead_error:
  "matchAhead p i s = Inl e \<Longrightarrow> e = PanicIndexOutOfRange"
  by (induction s arbitrary: i) (auto split: if_splits)

lemma embeddedLoop_result:
  "embeddedLoop p q e = Inr k \<Longrightarrow> e \<le> k"
  "embeddedLoop p q e = Inl err \<Longrightarrow> err \<noteq> OutOfFuel"
proof (induction p q e rule: embeddedLoop.induct)
  case (1 p quoted endPosition)
  {
    case 1
    then show ?case
      by (subst (asm) embeddedLoop.simps)
        (use "1.IH" [of False False] in \<open>auto split: if_splits sum.splits bool.splits\<close>)
  next
    case 2
    then show ?case
      by (subst (asm) embeddedLoop.simps)
        (use "1.IH" [of False False] in
          \<open>auto split: if_splits sum.splits bool.splits dest: matchAhead_error\<close>)
  }
qed

lemma parseJSONValue_blob_adv [advD]: "parseJSONValue_blob p = (r, p') \<Longrightarrow> advances p r p'"
  by (auto simp: parseJSONValue_blob_def Let_def split: sum.splits dest: embeddedLoop_result)

lemma lookahead_error: "lookahead p a = Inl e \<Longrightarrow> e \<noteq> OutOfFuel"
  by (auto simp: lookahead_def split: if_splits)

lemma parseJSONValue_new_adv [advD]: "parseJSONValue_new E p = (r, p') \<Longrightarrow> advances p r p'"
  by (auto simp: parseJSONValue_new_def Let_def split: prod.splits sum.splits if_splits
      dest!: advD)

lemma parseJSONValue_Timestamp_adv [advD]:
  "parseJSONValue_Timestamp E p = (r, p') \<Longrightarrow> advances p r p'"
  by (auto simp: parseJSONValue_Timestamp_def split: prod.splits sum.splits if_splits
      dest!: advD lookahead_error)

lemma parseJSONValue_ObjectId_adv [advD]:
  "parseJSONValue_ObjectId E p = (r, p') \<Longrightarrow> advances p r p'"
  by (auto simp: parseJSONValue_ObjectId_def split: prod.splits sum.splits if_splits
      dest!: advD lookahead_error)

lemma parseJSONValue_letter_adv [advD]:
  "parseJSONValue_letter E p = (r, p') \<Longrightarrow> advances p r p'"
  by (auto simp: parseJSONValue_letter_def split: prod.splits sum.splits if_splits
      dest!: advD)

lemma parseJSON_adv:
  "(\<forall>p r p'. parseJSONValue n E p = (r, p') \<longrightarrow> position p \<le> position p')
   \<and> (\<forall>rv p r p'. parseJSONMapLoop n E rv p = (r, p') \<longrightarrow> position p \<le> position p')
   \<and> (\<forall>rv p r p'. parseJSONArrayLoop n E rv p = (r, p') \<longrightarrow> position p \<le> position p')"
proof (induction n)
  case 0
  show ?case by simp
next
  case (Suc n)
  note ihV = Suc.IH [THEN conjunct1, rule_format]
  note ihM = Suc.IH [THEN conjunct2, THEN conjunct1, rule_format]
  note ihA = Suc.IH [THEN conjunct2, THEN conjunct2, rule_format]
  have V: "position p \<le> position p'" if "parseJSONValue (Suc n) E p = (r, p')" for p r p'
    using that
    by (auto split: prod.splits sum.splits if_splits dest!: advD ihM ihA)
  have M: "position p \<le> position p'" if "parseJSONMapLoop (Suc n) E rv p = (r, p')" for rv p r p'
    using that
    by (auto split: prod.splits sum.splits if_splits dest!: advD ihV ihM)
  have A: "position p \<le> position p'" if "parseJSONArrayLoop (Suc n) E rv p = (r, p')" for rv p r p'
    using that
    by (auto split: prod.splits sum.splits if_splits dest!: advD ihV ihA)
  from V M A show ?case
    by blast
qed

named_theorems stepD

lemma eatWhitespace_step [stepD]:
  "eatWhitespace E p = (r, p') \<Longrightarrow>
     runes p' = runes p \<and> position p \<le> position p' \<and> r \<noteq> Inl OutOfFuel
     \<and> (r \<noteq> Inl PanicIndexOutOfRange \<longrightarrow> position p' < length (runes p))"
  by (auto simp: eatWhitespace_def split: option.splits dest: scanWhile_SomeD)

lemma lookahead_step [stepD]:
  "lookahead p 0 = r \<Longrightarrow>
     r \<noteq> Inl OutOfFuel \<and> (r \<noteq> Inl PanicIndexOutOfRange \<longrightarrow> position p < length (runes p))"
  by (auto simp: lookahead_def split: if_splits)

lemma expect_step [stepD]:
  "expect c p = (r, p') \<Longrightarrow>
     runes p' = runes p \<and> r \<noteq> Inl OutOfFuel
     \<and> (r \<noteq> Inl PanicIndexOutOfRange \<longrightarrow> position p' = position p + 1)
     \<and> position p \<le> position p'"
  by (auto simp: expect_def advance_def split: prod.splits sum.splits if_splits)

lemma readJSONIdentifier_step [stepD]:
  "readJSONIdentifier E p = (r, p') \<Longrightarrow>
     runes p' = runes p \<and> position p \<le> position p' \<and> r \<noteq> Inl OutOfFuel"
  using readJSONIdentifier_frame readJSONIdentifier_adv by blast

lemma parseStringValue_step [stepD]:
  "parseStringValue q p = (r, p') \<Longrightarrow>
     runes p' = runes p \<and> position p \<le> position p' \<and> r \<noteq> Inl OutOfFuel"
  using parseStringValue_frame parseStringValue_adv by blast

lemma readNumber_step [stepD]:
  "readNumber E p = (r, p') \<Longrightarrow>
     runes p' = runes p \<and> position p \<le> position p' \<and> r \<noteq> Inl OutOfFuel"
  using readNumber_frame readNumber_adv by blast

lemma parseJSONValue_blob_step [stepD]:
  "parseJSONValue_blob p = (r, p') \<Longrightarrow>
     runes p' = runes p \<and> position p \<le> position p' \<and> r \<noteq> Inl OutOfFuel"
  using parseJSONValue_blob_frame parseJSONValue_blob_adv by blast

lemma parseJSONValue_letter_step [stepD]:
  "parseJSONValue_letter E p = (r, p') \<Longrightarrow>
     runes p' = runes p \<and> position p \<le> position p' \<and> r \<noteq> Inl OutOfFuel"
  using parseJSONValue_letter_frame parseJSONValue_letter_adv by blast

lemma parseJSON_step:
  "parseJSONValue n E p = (r, p') \<Longrightarrow> runes p' = runes p \<and> position p \<le> position p'"
  "parseJSONMapLoop n E rv p = (r, p') \<Longrightarrow> runes p' = runes p \<and> position p \<le> position p'"
  "parseJSONArrayLoop n E rvl p = (r, p') \<Longrightarrow> runes p' = runes p \<and> position p \<le> position p'"
proof -
  show "parseJSONValue n E p = (r, p') \<Longrightarrow> runes p' = runes p \<and> position p \<le> position p'"
    using parseJSON_frame [of n E, THEN conjunct1, rule_format, of p r p']
      parseJSON_adv [of n E, THEN conjunct1, rule_format, of p r p'] by simp
  show "parseJSONMapLoop n E rv p = (r, p') \<Longrightarrow> runes p' = runes p \<and> position p \<le> position p'"
    using parseJSON_frame [of n E, THEN conjunct2, THEN conjunct1, rule_format, of rv p r p']
      parseJSON_adv [of n E, THEN conjunct2, THEN conjunct1, rule_format, of rv p r p'] by simp
  show "parseJSONArrayLoop n E rvl p = (r, p') \<Longrightarrow> runes p' = runes p \<and> position p \<le> position p'"
    using parseJSON_frame [of n E, THEN conjunct2, THEN conjunct2, rule_format, of rvl p r p']
      parseJSON_adv [of n E, THEN conjunct2, THEN conjunct2, rule_format, of rvl p r p'] by simp
qed

section \<open>Enough fuel\<close>

named_theorems fuelI

lemma bind_fuel [fuelI]:
  assumes "fst x \<noteq> Inl OutOfFuel"
    and "\<And>v q. x = (Inr v, q) \<Longrightarrow> fst (g v q) \<noteq> Inl OutOfFuel"
  shows "fst (case x of (Inl e, p) \<Rightarrow> (Inl e, p) | (Inr v, p) \<Rightarrow> g v p) \<noteq> Inl OutOfFuel"
  using assms by (cases x; cases "fst x") auto

lemma bind_lookahead_fuel [fuelI]:
  assumes "\<And>c. lookahead p k = Inr c \<Longrightarrow> fst (g c) \<noteq> Inl OutOfFuel"
  shows "fst (case lookahead p k of Inl e \<Rightarrow> (Inl e, p') | Inr c \<Rightarrow> g c) \<noteq> Inl OutOfFuel"
  using assms by (cases "lookahead p k") (auto simp: lookahead_def split: if_splits)

lemma if_fuel [fuelI]:
  assumes "c \<Longrightarrow> fst a \<noteq> Inl OutOfFuel" and "\<not> c \<Longrightarrow> fst b \<noteq> Inl OutOfFuel"
  shows "fst (if c then a else b) \<noteq> Inl OutOfFuel"
  using assms by simp

lemma result_fuel [fuelI]:
  "fst (Inr v, p) \<noteq> Inl OutOfFuel" "e \<noteq> OutOfFuel \<Longrightarrow> fst (Inl e, p) \<noteq> Inl OutOfFuel"
  by simp_all

lemma cursor_fuel [fuelI]:
  "fst (eatWhitespace E p) \<noteq> Inl OutOfFuel"
  "fst (expect c p) \<noteq> Inl OutOfFuel"
  "fst (readJSONIdentifier E p) \<noteq> Inl OutOfFuel"
  "fst (parseStringValue q p) \<noteq> Inl OutOfFuel"
  "fst (readNumber E p) \<noteq> Inl OutOfFuel"
  "fst (readUntilRune u p) \<noteq> Inl OutOfFuel"
  "fst (readUntil E rt p) \<noteq> Inl OutOfFuel"
  "fst (readUpcaseIdentifier E p) \<noteq> Inl OutOfFuel"
  "fst (readDuration E p) \<noteq> Inl OutOfFuel"
  "fst (parseJSONValue_blob p) \<noteq> Inl OutOfFuel"
  "fst (parseJSONValue_letter E p) \<noteq> Inl OutOfFuel"
  using eatWhitespace_adv [of E p "fst (eatWhitespace E p)" "snd (eatWhitespace E p)"]
    expect_adv [of c p "fst (expect c p)" "snd (expect c p)"]
    readJSONIdentifier_adv [of E p "fst (readJSONIdentifier E p)" "snd (readJSONIdentifier E p)"]
    parseStringValue_adv [of q p "fst (parseStringValue q p)" "snd (parseStringValue q p)"]
    readNumber_adv [of E p "fst (readNumber E p)" "snd (readNumber E p)"]
    readUntilRune_adv [of u p "fst (readUntilRune u p)" "snd (readUntilRune u p)"]
    readUntil_adv [of E rt p "fst (readUntil E rt p)" "snd (readUntil E rt p)"]
    readUpcaseIdentifier_adv [of E p "fst (readUpcaseIdentifier E p)"
      "snd (readUpcaseIdentifier E p)"]
    readDuration_adv [of E p "fst (readDuration E p)" "snd (readDuration E p)"]
    parseJSONValue_blob_adv [of p "fst (parseJSONValue_blob p)" "snd (parseJSONValue_blob p)"]
    parseJSONValue_letter_adv [of E p "fst (parseJSONValue_letter E p)"
      "snd (parseJSONValue_letter E p)"]
  by simp_all

lemma lookahead_inrange: "lookahead p k = Inr c \<Longrightarrow> position p + k < length (runes p)"
  by (auto simp: lookahead_def split: if_splits)

lemma parseJSON_fuel:
  "(\<forall>p. 0 < n \<and> 2 * length (runes p) + 1 \<le> n + 2 * position p \<longrightarrow>
        fst (parseJSONValue n E p) \<noteq> Inl OutOfFuel)
   \<and> (\<forall>rv p. 0 < n \<and> 2 * length (runes p) + 2 \<le> n + 2 * position p \<longrightarrow>
        fst (parseJSONMapLoop n E rv p) \<noteq> Inl OutOfFuel)
   \<and> (\<forall>rv p. position p < length (runes p)
          \<and> 2 * length (runes p) + 2 \<le> n + 2 * position p \<longrightarrow>
        fst (parseJSONArrayLoop n E rv p) \<noteq> Inl OutOfFuel)"
proof (induction n)
  case 0
  show ?case by simp
next
  case (Suc n)
  note ihV = Suc.IH [THEN conjunct1, rule_format]
  note ihM = Suc.IH [THEN conjunct2, THEN conjunct1, rule_format]
  note ihA = Suc.IH [THEN conjunct2, THEN conjunct2, rule_format]
  note stepD' = eatWhitespace_step expect_step readJSONIdentifier_step parseStringValue_step
    readNumber_step parseJSONValue_blob_step parseJSONValue_letter_step
  have V: "fst (parseJSONValue (Suc n) E p) \<noteq> Inl OutOfFuel"
    if "2 * length (runes p) + 1 \<le> Suc n + 2 * position p" for p
    unfolding parseJSONValue.simps
    apply (intro fuelI ihV ihM ihA)
    using that
           apply (auto split: if_splits dest!: stepD' lookahead_inrange)
    done
  have M: "fst (parseJSONMapLoop (Suc n) E rv p) \<noteq> Inl OutOfFuel"
    if "2 * length (runes p) + 2 \<le> Suc n + 2 * position p" for rv p
    unfolding parseJSONMapLoop.simps
    apply (intro fuelI ihV ihM ihA)
    using that
           apply (auto split: if_splits prod.splits sum.splits
        dest!: stepD' lookahead_inrange parseJSON_step(1))
    done
  have A: "fst (parseJSONArrayLoop (Suc n) E rv p) \<noteq> Inl OutOfFuel"
    if "position p < length (runes p)" "2 * length (runes p) + 2 \<le> Suc n + 2 * position p"
    for rv p
    unfolding parseJSONArrayLoop.simps
    apply (intro fuelI ihV ihM ihA)
    using that
           apply (auto split: if_splits prod.splits sum.splits
        dest!: stepD' lookahead_inrange parseJSON_step(1))
    done
  from V M A show ?case
    by simp
qed

lemma bind_swallow_fuel:
  assumes "fst x \<noteq> Inl OutOfFuel"
    and "\<And>e q. x = (Inl e, q) \<Longrightarrow> e \<noteq> OutOfFuel \<Longrightarrow> fst (h e q) \<noteq> Inl OutOfFuel"
    and "\<And>v q. x = (Inr v, q) \<Longrightarrow> fst (g v q) \<noteq> Inl OutOfFuel"
  shows "fst (case x of (Inl e, p) \<Rightarrow> h e p | (Inr v, p) \<Rightarrow> g v p) \<noteq> Inl OutOfFuel"
  using assms by (cases x; cases "fst x") auto

lemma readUpcaseIdentifier_step [stepD]:
  "readUpcaseIdentifier E p = (r, p') \<Longrightarrow>
     runes p' = runes p \<and> position p \<le> position p' \<and> r \<noteq> Inl OutOfFuel"
  using readUpcaseIdentifier_frame readUpcaseIdentifier_adv by blast

lemma readUntilRune_step [stepD]:
  "readUntilRune u p = (r, p') \<Longrightarrow>
     runes p' = runes p \<and> position p \<le> position p' \<and> r \<noteq> Inl OutOfFuel"
  using readUntilRune_frame readUntilRune_adv by blast

lemma readUntil_inrange:
  assumes "readUntil E rt p = (Inr s, p')"
  shows "position p' < length (runes p)"
proof -
  from assms obtain j where "scanWhile (\<lambda>r. r \<noteq> endRune \<and> \<not> unicodeIs E rt r)
      (runes p) (position p) = Some j" "p' = p\<lparr>position := j\<rparr>"
    by (auto simp: readUntil_def split: option.splits if_splits)
  with scanWhile_SomeD [of _ "runes p" "position p" j] show ?thesis
    by simp
qed

lemma readUntil_step [stepD]:
  assumes "readUntil E rt p = (r, p')"
  shows "runes p' = runes p \<and> position p \<le> position p' \<and> r \<noteq> Inl OutOfFuel
     \<and> (\<forall>s. r = Inr s \<longrightarrow> position p' < length (runes p))"
  using readUntil_frame [OF assms] readUntil_adv [OF assms] readUntil_inrange [of E rt p _ p']
    assms
  by simp

lemma readDuration_step [stepD]:
  "readDuration E p = (r, p') \<Longrightarrow>
     runes p' = runes p \<and> position p \<le> position p' \<and> r \<noteq> Inl OutOfFuel"
  using readDuration_frame readDuration_adv by blast

lemma parseJSONMap_step:
  "parseJSONMap n E p = (r, p') \<Longrightarrow> runes p' = runes p \<and> position p \<le> position p'"
  using parseJSON_step(2) [of n E "[]" "p\<lparr>position := position p + 1\<rparr>" r p']
  by (auto simp: parseJSONMap_def)

lemma parseJSONMap_fuel:
  "0 < n \<Longrightarrow> 2 * length (runes p) \<le> n + 2 * position p \<Longrightarrow>
     fst (parseJSONMap n E p) \<noteq> Inl OutOfFuel"
  unfolding parseJSONMap_def
  by (intro parseJSON_fuel [THEN conjunct2, THEN conjunct1, rule_format]) simp

lemmas cursorD = eatWhitespace_step expect_step readJSONIdentifier_step parseStringValue_step
  readNumber_step readUpcaseIdentifier_step readUntilRune_step readUntil_step readDuration_step

lemma parsePlanSummaryElement_step:
  "parsePlanSummaryElement n E p = (r, p') \<Longrightarrow> runes p' = runes p \<and> position p \<le> position p'"
  by (auto simp: parsePlanSummaryElement_def Let_def split: prod.splits sum.splits if_splits
      dest!: cursorD parseJSONMap_step)

lemma parsePlanSummaryElement_fuel:
  "2 * length (runes p) \<le> n + 2 * position p \<Longrightarrow>
     fst (parsePlanSummaryElement n E p) \<noteq> Inl OutOfFuel"
  unfolding parsePlanSummaryElement_def Let_def
  apply (intro fuelI bind_swallow_fuel parseJSONMap_fuel)
           apply (auto dest!: cursorD lookahead_inrange)
  done

lemma parsePlanSummaryLoop_step:
  "parsePlanSummaryLoop n E rv p = (r, p') \<Longrightarrow>
     runes p' = runes p \<and> position p \<le> position p'"
proof (induction n arbitrary: rv p)
  case 0
  then show ?case by simp
next
  case (Suc n)
  from Suc.prems show ?case
    by (auto simp: Let_def split: prod.splits sum.splits if_splits
        dest!: cursorD parsePlanSummaryElement_step Suc.IH)
qed

lemma parsePlanSummaryLoop_fuel:
  "0 < n \<Longrightarrow> 2 * length (runes p) + 1 \<le> n + 2 * position p \<Longrightarrow>
     fst (parsePlanSummaryLoop n E rv p) \<noteq> Inl OutOfFuel"
proof (induction n arbitrary: rv p)
  case 0
  then show ?case by simp
next
  case (Suc n)
  show ?case
    unfolding parsePlanSummaryLoop.simps Let_def
    apply (intro fuelI parsePlanSummaryElement_fuel Suc.IH)
    using Suc.prems
        apply (auto dest!: cursorD lookahead_inrange parsePlanSummaryElement_step)
    done
qed

lemma parsePlanSummary_step:
  "parsePlanSummary n E p = (r, p') \<Longrightarrow> runes p' = runes p \<and> position p \<le> position p'"
  by (auto simp: parsePlanSummary_def split: prod.splits sum.splits
      dest!: cursorD parsePlanSummaryLoop_step)

lemma parsePlanSummary_fuel:
  "2 * length (runes p) + 1 \<le> n + 2 * position p \<Longrightarrow>
     fst (parsePlanSummary n E p) \<noteq> Inl OutOfFuel"
  unfolding parsePlanSummary_def
  apply (intro fuelI parsePlanSummaryLoop_fuel)
   apply (auto dest!: cursorD)
  done

lemma setField_cursor [simp]:
  "runes (setField k v p) = runes p" "position (setField k v p) = position p"
  by (simp_all add: setField_def)

lemma parseFieldAndValue_command_step:
  "parseFieldAndValue_command n E p = (r, p') \<Longrightarrow>
     runes p' = runes p \<and> position p \<le> position p'"
  by (auto simp: parseFieldAndValue_command_def split: prod.splits sum.splits if_splits
      dest!: cursorD parseJSONMap_step)

lemma parseFieldAndValue_command_fuel:
  "2 * length (runes p) \<le> n + 2 * position p \<Longrightarrow>
     fst (parseFieldAndValue_command n E p) \<noteq> Inl OutOfFuel"
  unfolding parseFieldAndValue_command_def
  apply (intro fuelI parseJSONMap_fuel)
        apply (auto split: if_splits prod.splits sum.splits dest!: cursorD lookahead_inrange)
  done

lemma parseFieldAndValue_other_step:
  "parseFieldAndValue_other n E f p = (r, p') \<Longrightarrow>
     runes p' = runes p \<and> position p \<le> position p'"
  by (auto simp: parseFieldAndValue_other_def split: prod.splits sum.splits if_splits
      dest!: cursorD parseJSONMap_step)

lemma parseFieldAndValue_other_fuel:
  "2 * length (runes p) \<le> n + 2 * position p \<Longrightarrow>
     fst (parseFieldAndValue_other n E f p) \<noteq> Inl OutOfFuel"
  unfolding parseFieldAndValue_other_def
  apply (intro fuelI parseJSONMap_fuel)
         apply (auto dest!: cursorD lookahead_inrange)
  done

lemma parseFieldAndValue_step:
  "parseFieldAndValue n E p = (r, p') \<Longrightarrow>
     runes p' = runes p \<and> position p \<le> position p'
     \<and> (r = Inr False \<longrightarrow> position p < position p')"
  by (auto simp: parseFieldAndValue_def Let_def split: prod.splits sum.splits if_splits
      dest!: cursorD parsePlanSummary_step parseFieldAndValue_command_step
        parseFieldAndValue_other_step)

lemma parseFieldAndValue_fuel:
  "2 * length (runes p) \<le> n + 2 * position p + 1 \<Longrightarrow>
     fst (parseFieldAndValue n E p) \<noteq> Inl OutOfFuel"
  unfolding parseFieldAndValue_def Let_def
  apply (intro fuelI bind_swallow_fuel parsePlanSummary_fuel parseFieldAndValue_command_fuel
      parseFieldAndValue_other_fuel)
             apply (auto dest!: cursorD)
  done

lemma parseOperationBody_step:
  "parseOperationBody n E p = (r, p') \<Longrightarrow> runes p' = runes p \<and> position p \<le> position p'"
proof (induction n arbitrary: p)
  case 0
  then show ?case by simp
next
  case (Suc n)
  from Suc.prems show ?case
    by (auto split: prod.splits sum.splits if_splits
        dest!: cursorD parseFieldAndValue_step Suc.IH)
qed

lemma parseOperationBody_fuel:
  "0 < n \<Longrightarrow> 2 * length (runes p) \<le> n + 2 * position p \<Longrightarrow>
     fst (parseOperationBody n E p) \<noteq> Inl OutOfFuel"
proof (induction n arbitrary: p)
  case 0
  then show ?case by simp
next
  case (Suc n)
  show ?case
    unfolding parseOperationBody.simps
    apply (intro fuelI parseFieldAndValue_fuel Suc.IH)
    using Suc.prems
           apply (auto dest!: cursorD parseFieldAndValue_step)
    done
qed

lemma parseMessage_fuel:
  "2 * length (runes p) \<le> n + 2 * position p \<Longrightarrow>
     fst (parseMessage n E p) \<noteq> Inl OutOfFuel"
  unfolding parseMessage_def parseMessage_operation_def parseMessage_text_def Let_def
  apply (intro fuelI bind_swallow_fuel parseOperationBody_fuel)
              apply (auto dest!: cursorD)
  done

section \<open>The fields of an operation, in the order of the line\<close>

lemma scanWhile_split:
  assumes "scanWhile c rs i = Some j"
  shows "drop i rs = slice rs i j @ rs ! j # drop (Suc j) rs"
    and "length (slice rs i j) = j - i"
    and "\<forall>x\<in>set (slice rs i j). c x"
    and "\<not> c (rs ! j)" and "i \<le> j" and "j < length rs"
proof -
  from scanWhile_SomeD [OF assms] show b: "i \<le> j" "j < length rs" and "\<not> c (rs ! j)"
    by simp_all
  have "drop i rs = take (j - i) (drop i rs) @ drop (j - i) (drop i rs)"
    by (rule append_take_drop_id [symmetric])
  also have "drop (j - i) (drop i rs) = drop j rs"
    using b by simp
  also have "drop j rs = rs ! j # drop (Suc j) rs"
    using b by (simp add: Cons_nth_drop_Suc)
  finally show "drop i rs = slice rs i j @ rs ! j # drop (Suc j) rs"
    by (simp add: slice_def)
  show len: "length (slice rs i j) = j - i"
    using b by (simp add: slice_def)
  show "\<forall>x\<in>set (slice rs i j). c x"
  proof
    fix x
    assume "x \<in> set (slice rs i j)"
    then obtain k where k: "k < j - i" "x = slice rs i j ! k"
      using len by (auto simp: in_set_conv_nth)
    then have "x = rs ! (i + k)"
      using b by (simp add: slice_def)
    with scanWhile_between [OF assms, of "i + k"] k(1) show "c x"
      by simp
  qed
qed

lemma eatWhitespace_SomeD:
  assumes "eatWhitespace E p = (Inr u, p1)"
  shows "p1 = p\<lparr>position := position p1\<rparr>" and "position p \<le> position p1"
    and "position p1 < length (runes p)"
    and "rest p1 = dropWhile (unicodeIs E Space) (rest p)"
proof -
  from assms obtain j where j: "scanWhile (unicodeIs E Space) (runes p) (position p) = Some j"
      "p1 = p\<lparr>position := j\<rparr>"
    by (auto simp: eatWhitespace_def split: option.splits)
  note s = scanWhile_split [OF j(1)]
  from j(2) show "p1 = p\<lparr>position := position p1\<rparr>"
    by simp
  from j(2) s(5,6) show "position p \<le> position p1" "position p1 < length (runes p)"
    by simp_all
  have "dropWhile (unicodeIs E Space) (rest p) = runes p ! j # drop (Suc j) (runes p)"
    unfolding rest_def s(1) using s(3,4) by (simp add: dropWhile_append2)
  moreover have "rest p1 = runes p ! j # drop (Suc j) (runes p)"
    using j(2) s(6) by (simp add: rest_def Cons_nth_drop_Suc)
  ultimately show "rest p1 = dropWhile (unicodeIs E Space) (rest p)"
    by simp
qed



















section \<open>The order in which the keys are stored\<close>




section \<open>How the field loop ends\<close>




section \<open>The probe for a field\<close>

lemma restOfLine_split:
  assumes "endRune \<in> set (rest p)"
  shows "\<exists>ys. rest p = restOfLine p @ endRune # ys"
proof -
  let ?P = "\<lambda>r. r \<noteq> endRune"
  have "dropWhile ?P (rest p) \<noteq> []"
    using assms by (simp add: dropWhile_eq_Nil_conv)
  moreover have "\<not> ?P (hd (dropWhile ?P (rest p)))"
    using assms hd_dropWhile [of ?P "rest p"] by (simp add: dropWhile_eq_Nil_conv) 
  ultimately obtain ys where "dropWhile ?P (rest p) = endRune # ys"
    by (cases "dropWhile ?P (rest p)") auto
  then have "rest p = takeWhile ?P (rest p) @ endRune # ys"
    using takeWhile_dropWhile_id [of ?P "rest p"] by simp
  then show ?thesis
    by (auto simp: restOfLine_def)
qed

lemma restOfLine_no_end: "r \<in> set (restOfLine p) \<Longrightarrow> r \<noteq> endRune"
  by (auto simp: restOfLine_def dest: set_takeWhileD)

lemma position_self [simp]: "p\<lparr>position := position p\<rparr> = p"
  by simp

text \<open>
  Claim C4, as amended. After skipping the separators, \<^verbatim>\<open>parseFieldAndValue\<close> reports
  "no more fields" exactly when no colon occurs in the rest of the line (the read runs to
  the next colon wherever it is, across whitespace); on that outcome the state is the one
  right after the skip, cursor on the saved position and record unchanged, and no error is
  returned.
\<close>

theorem C4_no_more_fields:
  assumes "eatWhitespace E p = (Inr (), p1)" and "endRune \<in> set (rest p1)"
  shows "(rn CHR '':'' \<notin> set (restOfLine p1) \<longrightarrow> parseFieldAndValue n E p = (Inr True, p1))
       \<and> (rn CHR '':'' \<in> set (restOfLine p1) \<longrightarrow> fst (parseFieldAndValue n E p) \<noteq> Inr True)
       \<and> Fields p1 = Fields p \<and> runes p1 = runes p
       \<and> rest p1 = dropWhile (unicodeIs E Space) (rest p)"
proof (intro conjI impI)
  show "Fields p1 = Fields p" "runes p1 = runes p"
    using eatWhitespace_frame [OF assms(1)] by simp_all
  show "rest p1 = dropWhile (unicodeIs E Space) (rest p)"
    using assms(1) by (rule eatWhitespace_SomeD(4))
next
  from restOfLine_split [OF assms(2)] obtain ys where
    split: "rest p1 = restOfLine p1 @ endRune # ys"
    by blast
  {
    assume no: "rn CHR '':'' \<notin> set (restOfLine p1)"
    have "readUntilRune (rn CHR '':'') p1 = (Inl (EndBeforeRune (rn CHR '':'')), p1)"
      using no restOfLine_no_end [of _ p1]
      by (intro readUntilRune_end [OF split]) (auto simp: rn_def endRune_def)
    with assms(1) show "parseFieldAndValue n E p = (Inr True, p1)"
      by (simp add: parseFieldAndValue_def)
  }
  {
    assume "rn CHR '':'' \<in> set (restOfLine p1)"
    then obtain as bs where ab: "restOfLine p1 = as @ rn CHR '':'' # bs" "rn CHR '':'' \<notin> set as"
      using split_list_first [of "rn CHR '':''" "restOfLine p1"] by blast
    have as: "\<forall>x\<in>set as. x \<noteq> rn CHR '':'' \<and> x \<noteq> endRune"
      using ab restOfLine_no_end [of _ p1] by auto
    have "rest p1 = as @ rn CHR '':'' # (bs @ endRune # ys)"
      using split ab(1) by simp
    from readUntilRune_shape [OF this as]
    have "readUntilRune (rn CHR '':'') p1 = (Inr as, p1\<lparr>position := position p1 + length as\<rparr>)" .
    with assms(1) show "fst (parseFieldAndValue n E p) \<noteq> Inr True"
      by (auto simp: parseFieldAndValue_def Let_def split: prod.splits sum.splits)
  }
qed

text \<open>
  The theorem on the text \<open>12ms\<close>, which has no colon, and on \<open>n:1 2ms\<close>, which has
  one.
\<close>

theorem C4_no_more_fields_witness:
  "eatWhitespace asciiEnv (atRunes (str '' 12ms'') :: int parser) = (Inr (), (atRunes (str '' 12ms'') :: int parser)\<lparr>position := 1\<rparr>)
   \<and> endRune \<in> set (rest ((atRunes (str '' 12ms'') :: int parser)\<lparr>position := 1\<rparr>))
   \<and> rn CHR '':'' \<notin> set (restOfLine ((atRunes (str '' 12ms'') :: int parser)\<lparr>position := 1\<rparr>))
   \<and> parseFieldAndValue 2 asciiEnv (atRunes (str '' 12ms'') :: int parser)
       = (Inr True, (atRunes (str '' 12ms'') :: int parser)\<lparr>position := 1\<rparr>)
   \<and> eatWhitespace asciiEnv (atRunes (str '' n:1 2ms'') :: int parser) = (Inr (), (atRunes (str '' n:1 2ms'') :: int parser)\<lparr>position := 1\<rparr>)
   \<and> endRune \<in> set (rest ((atRunes (str '' n:1 2ms'') :: int parser)\<lparr>position := 1\<rparr>))
   \<and> rn CHR '':'' \<in> set (restOfLine ((atRunes (str '' n:1 2ms'') :: int parser)\<lparr>position := 1\<rparr>))
   \<and> fst (parseFieldAndValue 2 asciiEnv (atRunes (str '' n:1 2ms'') :: int parser)) \<noteq> Inr True"
proof -
  let ?a = "atRunes (str '' 12ms'') :: int parser"
  let ?b = "atRunes (str '' n:1 2ms'') :: int parser"
  have a: "eatWhitespace asciiEnv ?a = (Inr (), ?a\<lparr>position := 1\<rparr>)"
    "endRune \<in> set (rest (?a\<lparr>position := 1\<rparr>))"
    "rn CHR '':'' \<notin> set (restOfLine (?a\<lparr>position := 1\<rparr>))"
    by code_simp+
  have b: "eatWhitespace asciiEnv ?b = (Inr (), ?b\<lparr>position := 1\<rparr>)"
    "endRune \<in> set (rest (?b\<lparr>position := 1\<rparr>))"
    "rn CHR '':'' \<in> set (restOfLine (?b\<lparr>position := 1\<rparr>))"
    by code_simp+
  note t1 = C4_no_more_fields [OF a(1,2), of 2, THEN conjunct1, rule_format, OF a(3)]
  note t2 = C4_no_more_fields [OF b(1,2), of 2, THEN conjunct2, THEN conjunct1, rule_format,
      OF b(3)]
  show ?thesis
    by (intro conjI a b t1 t2)
qed

text \<open>
  On \<open>a b:1 2ms\<close> the next whitespace-delimited token is \<open>a\<close>, which has no colon,
  and yet the probe does not report "no more fields": it reads the field \<open>a b\<close>.
\<close>

theorem C4_counterexample:
  "rn CHR '':'' \<notin> set (nextToken asciiEnv (atRunes (str ''a b:1 2ms'') :: int parser))
   \<and> parseFieldAndValue 2 asciiEnv (atRunes (str ''a b:1 2ms''))
       = (Inr False, (atRunes (str ''a b:1 2ms''))\<lparr>position := 5, Fields := [(str ''a b'', VNumber 1)]\<rparr>)"
  by code_simp

section \<open>Backtracking\<close>

lemma restore_position:
  assumes "frame p1 p2"
  shows "p2\<lparr>position := position p1\<rparr> = p1"
  using assms by (intro parser.equality) simp_all

lemma readUpcaseIdentifier_error:
  "readUpcaseIdentifier E p = (Inl e, p') \<Longrightarrow> p' = p"
  by (auto simp: readUpcaseIdentifier_def split: sum.splits)

text \<open>
  The three probes save the cursor after skipping the separators and attempt a read: the
  operation name in \<^verbatim>\<open>parseMessage\<close>, the field name in \<^verbatim>\<open>parseFieldAndValue\<close>, the
  stage name in \<^verbatim>\<open>parsePlanSummaryElement\<close>. When the read fails (for the operation
  probe also when the token read is no operation name), setting the cursor back to the
  saved position gives exactly the state before the attempt: same runes, same record,
  same cursor. The method then goes on from that state: the message is read from the
  saved position, the field probe returns "no more fields", the element probe returns no
  element; none of them returns an error.
\<close>

lemma saved_position_probes_restore:
  assumes "eatWhitespace E p = (Inr (), p1)"
  shows "(readUntil E Space p1 = (r, p2)
          \<and> (case r of Inl e \<Rightarrow> \<not> isPanic e | Inr tok \<Rightarrow> \<not> isOperationName tok)
          \<longrightarrow> p2\<lparr>position := position p1\<rparr> = p1
              \<and> parseMessage n E p = parseMessage_text (position p1) p1)
       \<and> (readUntilRune (rn CHR '':'') p1 = (Inl e, p2) \<and> \<not> isPanic e
          \<longrightarrow> p2\<lparr>position := position p1\<rparr> = p1
              \<and> parseFieldAndValue n E p = (Inr True, p1))
       \<and> (readUpcaseIdentifier E p1 = (Inl e, p2) \<and> \<not> isPanic e
          \<longrightarrow> p2\<lparr>position := position p1\<rparr> = p1
              \<and> parsePlanSummaryElement n E p = (Inr None, p1))
       \<and> Fields p1 = Fields p"
proof (intro conjI impI)
  show "Fields p1 = Fields p"
    using eatWhitespace_frame [OF assms] by simp
next
  assume a: "readUntil E Space p1 = (r, p2)
          \<and> (case r of Inl e \<Rightarrow> \<not> isPanic e | Inr tok \<Rightarrow> \<not> isOperationName tok)"
  then have restored: "p2\<lparr>position := position p1\<rparr> = p1"
    using readUntil_frame [of E Space p1 r p2] by (intro restore_position) simp
  then show "p2\<lparr>position := position p1\<rparr> = p1" .
  have "parseMessage_text (position p1) p2 = parseMessage_text (position p1) p1"
    using restored by (simp add: parseMessage_text_def)
  with a assms show "parseMessage n E p = parseMessage_text (position p1) p1"
    by (auto simp: parseMessage_def Let_def split: sum.splits)
next
  assume a: "readUntilRune (rn CHR '':'') p1 = (Inl e, p2) \<and> \<not> isPanic e"
  then have restored: "p2\<lparr>position := position p1\<rparr> = p1"
    using readUntilRune_frame [of "rn CHR '':''" p1 "Inl e" p2] by (intro restore_position) simp
  then show "p2\<lparr>position := position p1\<rparr> = p1" .
  from a assms restored show "parseFieldAndValue n E p = (Inr True, p1)"
    by (simp add: parseFieldAndValue_def Let_def)
next
  assume a: "readUpcaseIdentifier E p1 = (Inl e, p2) \<and> \<not> isPanic e"
  then have restored: "p2\<lparr>position := position p1\<rparr> = p1"
    using readUpcaseIdentifier_frame [of E p1 "Inl e" p2] by (intro restore_position) simp
  then show "p2\<lparr>position := position p1\<rparr> = p1" .
  from a assms restored show "parsePlanSummaryElement n E p = (Inr None, p1)"
    by (simp add: parsePlanSummaryElement_def Let_def)
qed

text \<open>
  Claim C8 fails on the second way in which \<^verbatim>\<open>parsePlanSummaryElement\<close> returns no
  element and no error: the stage name was read, a document follows it, and
  \<^verbatim>\<open>parseJSONMap\<close> fails on the document. The error is dropped like the one of the stage
  name, but the cursor is not set back to the saved position: it stays where the document
  stopped. On the text \<open>IXSCAN { a: ? } b:1 2ms\<close> the saved position is 0 and the
  element probe returns no element with the cursor at offset 12, on the question mark.
  On a line with this plan summary parse succeeds: the plan summary is empty, and the
  field loop goes on in the middle of the document and stores the field \<open>? } b\<close>.
\<close>

theorem C8_failed_element_probe_keeps_cursor:
  "parsePlanSummaryElement 5 asciiEnv (atRunes text_stage_bad_document :: int parser)
     = (Inr None, (atRunes text_stage_bad_document)\<lparr>position := 12\<rparr>)
   \<and> ParseLogLine 8 asciiEnv line_stage_bad_document
     = Inr [(str ''timestamp'', VString (str ''2016-01-01T00:00:00.000Z'')),
            (str ''severity'', VString (str ''informational'')),
            (str ''component'', VString (str ''QUERY'')),
            (str ''context'', VString (str ''conn1'')),
            (str ''operation'', VString (str ''query'')),
            (str ''namespace'', VString (str ''test.foo'')),
            (str ''planSummary'', VList []),
            (str ''? } b'', VNumber 1),
            (str ''duration'', VNumber 2)]"
  by code_simp

section \<open>A message of one token\<close>

lemma not_Space_endRune [simp]: "\<not> unicodeIs E Space endRune"
  by (simp add: unicodeIs_def endRune_def)

lemma parseMessage_single_token:
  assumes msg: "rest p = ws @ tok @ [endRune]"
    and ws: "\<forall>r\<in>set ws. unicodeIs E Space r"
    and tok: "\<forall>r\<in>set tok. \<not> unicodeIs E Space r \<and> r \<noteq> endRune"
  shows "parseMessage n E p
    = (Inr (), setField (str ''message'') (VString tok)
                 (p\<lparr>position := position p + length ws + length tok\<rparr>))"
proof -
  let ?p1 = "p\<lparr>position := position p + length ws\<rparr>"
  obtain y ys where y: "tok @ [endRune] = y # ys"
    by (cases "tok @ [endRune]") auto
  then have ny: "\<not> unicodeIs E Space y"
    using tok by (cases tok) auto
  have e1: "eatWhitespace E p = (Inr (), ?p1)"
    using msg y ny ws by (intro eatWhitespace_shape [where y = y and ys = ys]) auto
  have r1: "rest ?p1 = tok @ endRune # []"
    using rest_skip [of p ws "tok @ [endRune]"] msg by simp
  have e2: "readUntil E Space ?p1 = (Inl EndBeforeRange, ?p1)"
    using tok by (intro readUntil_end [OF r1]) auto
  have e3: "readUntilRune endRune ?p1
      = (Inr tok, ?p1\<lparr>position := position ?p1 + length tok\<rparr>)"
    using tok by (intro readUntilRune_shape [OF r1]) auto
  from e1 e2 e3 show ?thesis
    by (simp add: parseMessage_def parseMessage_text_def Let_def)
qed

text \<open>
  Claim C10. When, after the context, the line holds only whitespace and one token that
  runs to the end of the input, the probe for an operation name fails (the token is not
  followed by whitespace), whatever the token is; parse succeeds, the token is stored under
  \<open>message\<close>, and the keys of the record are the four of the prefix and \<open>message\<close>:
  no \<open>operation\<close>, \<open>namespace\<close> or \<open>duration\<close>.
\<close>

theorem C10_single_token_message:
  assumes pre: "parseTimestamp E (Init input) = (Inr (), p1)" "parseSeverity E p1 = (Inr (), p2)"
      "parseComponent E p2 = (Inr (), p3)" "parseContext E p3 = (Inr (), p4)"
    and msg: "rest p4 = ws @ tok @ [endRune]"
    and ws: "\<forall>r\<in>set ws. unicodeIs E Space r"
    and tok: "\<forall>r\<in>set tok. \<not> unicodeIs E Space r \<and> r \<noteq> endRune"
  shows "ParseLogLine n E input = Inr (Fields p4 @ [(str ''message'', VString tok)])
    \<and> map fst (Fields p4 @ [(str ''message'', VString tok)]) = baseKeys @ [str ''message'']"
proof -
  from parseTimestamp_stops [OF pre(1)] obtain c where
    c: "lookahead p1 0 = Inr c" "unicodeIs E Space c"
    by blast
  then have "c \<noteq> rn CHR ''[''"
    by (auto simp: unicodeIs_def rn_def)
  with c pre parseMessage_single_token [OF msg ws tok, of n]
  have "ParseLogLine n E input = Inr (Fields p4 @ [(str ''message'', VString tok)])"
    by (simp add: ParseLogLine_def Parse_def setField_def)
  moreover from parseTimestamp_Fields [OF pre(1)] parseSeverity_Fields [OF pre(2)]
    parseComponent_Fields [OF pre(3)] parseContext_Fields [OF pre(4)]
  have "map fst (Fields p4) = baseKeys"
    by (auto simp: Init_def baseKeys_def)
  ultimately show ?thesis
    by simp
qed

text \<open>The theorem on a line whose message is the operation name \<open>query\<close> alone.\<close>

theorem C10_single_token_message_witness:
  "ParseLogLine 0 asciiEnv line_query_alone
     = Inr [(str ''timestamp'', VString (str ''2016-01-01T00:00:00.000Z'')),
            (str ''severity'', VString (str ''informational'')),
            (str ''component'', VString (str ''QUERY'')),
            (str ''context'', VString (str ''conn1'')),
            (str ''message'', VString (str ''query''))]
   \<and> isOperationName (str ''query'')"
proof -
  let ?f1 = "[(str ''timestamp'', VString (str ''2016-01-01T00:00:00.000Z''))]"
  let ?f2 = "?f1 @ [(str ''severity'', VString (str ''informational''))]"
  let ?f3 = "?f2 @ [(str ''component'', VString (str ''QUERY''))]"
  let ?f4 = "?f3 @ [(str ''context'', VString (str ''conn1''))]"
  have s: "parseTimestamp asciiEnv (Init line_query_alone) = (Inr (), prefix_state 24 ?f1)"
    "parseSeverity asciiEnv (prefix_state 24 ?f1) = (Inr (), prefix_state 27 ?f2)"
    "parseComponent asciiEnv (prefix_state 27 ?f2) = (Inr (), prefix_state 32 ?f3)"
    "parseContext asciiEnv (prefix_state 32 ?f3) = (Inr (), prefix_state 40 ?f4)"
    by code_simp+
  have m: "rest (prefix_state 40 ?f4) = str '' '' @ str ''query'' @ [endRune]"
    "\<forall>r\<in>set (str '' ''). unicodeIs asciiEnv Space r"
    "\<forall>r\<in>set (str ''query''). \<not> unicodeIs asciiEnv Space r \<and> r \<noteq> endRune"
    by code_simp+
  have q: "isOperationName (str ''query'')"
    by code_simp
  from C10_single_token_message [OF s m, of 0] q show ?thesis
    by (simp add: prefix_state_def)
qed

section \<open>Quoted strings\<close>

text \<open>
  Claim C9, as amended. A quoted string value is read by \<^verbatim>\<open>parseStringValue\<close>: the value
  of a field that starts with a double quote, and a value inside a document that starts
  with a double quote not followed by a brace (one followed by a brace is read as a blob,
  up to quote, comma, space). \<^verbatim>\<open>parseStringValue\<close> interprets no escape sequence: the
  string it returns is exactly the runes between the opening quote and the first
  following occurrence of the quote rune, backslashes included and unmodified, and the
  cursor is left after that quote. A backslash does not protect the quote rune: a
  backslash followed by the quote ends the string after the backslash.
\<close>

theorem C9_quoted_string_raw:
  assumes "rest p = c # s @ q # zs" and "q \<notin> set s" and "endRune \<notin> set s"
  shows "parseStringValue q p = (Inr s, p\<lparr>position := position p + length s + 2\<rparr>)
    \<and> (c = dquote \<and> q = dquote \<longrightarrow>
         parseFieldAndValue_other n E f p
           = (Inr (VString s), p\<lparr>position := position p + length s + 2\<rparr>)
         \<and> parseJSONValue (Suc n) E p
           = (if s \<noteq> [] \<and> hd s = rn CHR ''{'' then parseJSONValue_blob p
              else (Inr (VString s), p\<lparr>position := position p + length s + 2\<rparr>)))"
proof (intro conjI impI)
  let ?p1 = "p\<lparr>position := position p + 1\<rparr>"
  have "rest ?p1 = s @ q # zs"
    using rest_step [OF assms(1)] by simp
  moreover have "\<forall>x\<in>set s. x \<noteq> q \<and> x \<noteq> endRune"
    using assms(2,3) by auto
  ultimately have "readUntilRune q ?p1 = (Inr s, ?p1\<lparr>position := position ?p1 + length s\<rparr>)"
    by (rule readUntilRune_shape)
  then show sv: "parseStringValue q p = (Inr s, p\<lparr>position := position p + length s + 2\<rparr>)"
    by (simp add: parseStringValue_def)
  assume cq: "c = dquote \<and> q = dquote"
  have la: "lookahead p 0 = Inr dquote"
    using assms(1) cq by (intro lookahead_rest [where ys = "s @ q # zs"]) simp
  have dq: "dquote \<noteq> rn CHR ''{''" "\<not> unicodeIs E Digit dquote" "dquote \<noteq> rn CHR ''[''"
    "dquote \<noteq> rn CHR ''-''" "dquote \<noteq> rn CHR ''+''" "dquote \<noteq> rn CHR ''.''"
    by (simp_all add: dquote_def rn_def unicodeIs_def)
  from la sv cq dq show "parseFieldAndValue_other n E f p
           = (Inr (VString s), p\<lparr>position := position p + length s + 2\<rparr>)"
    by (simp add: parseFieldAndValue_other_def)
  obtain h t where ht: "s @ q # zs = h # t" "h = (if s = [] then q else hd s)"
    by (cases s) auto
  have la1: "lookahead p 1 = Inr h"
    using assms(1) ht by (intro lookahead1_rest [where x = c and ys = t]) simp
  from la la1 sv cq dq ht(2) show "parseJSONValue (Suc n) E p
           = (if s \<noteq> [] \<and> hd s = rn CHR ''{'' then parseJSONValue_blob p
              else (Inr (VString s), p\<lparr>position := position p + length s + 2\<rparr>))"
    by auto
qed

text \<open>
  The theorem on a string with two backslashes in a row, as the value of a field and as
  a value inside a document, and on a string that starts with a brace: as the value of a
  field it is the text between the quotes, inside a document it is read as a blob, which
  keeps the closing quote.
\<close>

theorem C9_quoted_string_raw_witness:
  "parseStringValue dquote (atRunes text_two_backslashes :: int parser)
     = (Inr [rn CHR ''a'', backslash, backslash, rn CHR ''b''],
        (atRunes text_two_backslashes)\<lparr>position := 6\<rparr>)
   \<and> parseFieldAndValue_other 0 asciiEnv (str ''f'') (atRunes text_two_backslashes)
     = (Inr (VString [rn CHR ''a'', backslash, backslash, rn CHR ''b'']),
        (atRunes text_two_backslashes)\<lparr>position := 6\<rparr>)
   \<and> parseJSONValue (Suc 0) asciiEnv (atRunes text_two_backslashes)
     = (Inr (VString [rn CHR ''a'', backslash, backslash, rn CHR ''b'']),
        (atRunes text_two_backslashes)\<lparr>position := 6\<rparr>)
   \<and> parseFieldAndValue_other 0 asciiEnv (str ''f'') (atRunes text_braced_string)
     = (Inr (VString (str ''{a}'')), (atRunes text_braced_string)\<lparr>position := 5\<rparr>)
   \<and> parseJSONValue (Suc 0) asciiEnv (atRunes text_braced_string)
     = (Inr (VString (str ''{a}'' @ [dquote])), (atRunes text_braced_string)\<lparr>position := 5\<rparr>)"
proof -
  let ?p = "atRunes text_two_backslashes :: int parser"
  let ?b = "atRunes text_braced_string :: int parser"
  let ?s = "[rn CHR ''a'', backslash, backslash, rn CHR ''b'']"
  have h: "rest ?p = dquote # ?s @ dquote # [rn CHR '','', endRune]"
    "dquote \<notin> set ?s" "endRune \<notin> set ?s"
    by code_simp+
  have g: "rest ?b = dquote # str ''{a}'' @ dquote # (str '', b'' @ [endRune])"
    "dquote \<notin> set (str ''{a}'')" "endRune \<notin> set (str ''{a}'')"
    by code_simp+
  note t = C9_quoted_string_raw [OF h, of 0 asciiEnv "str ''f''"]
  note tb = C9_quoted_string_raw [OF g, of 0 asciiEnv "str ''f''"]
  note t2 = t [THEN conjunct2, rule_format, OF conjI [OF refl refl]]
  note tb2 = tb [THEN conjunct2, rule_format, OF conjI [OF refl refl]]
  have a1: "parseStringValue dquote ?p = (Inr ?s, ?p\<lparr>position := 6\<rparr>)"
    by (rule trans [OF t [THEN conjunct1]]) code_simp
  have a2: "parseFieldAndValue_other 0 asciiEnv (str ''f'') ?p
      = (Inr (VString ?s), ?p\<lparr>position := 6\<rparr>)"
    by (rule trans [OF t2 [THEN conjunct1]]) code_simp
  have a3: "parseJSONValue (Suc 0) asciiEnv ?p = (Inr (VString ?s), ?p\<lparr>position := 6\<rparr>)"
    by (rule trans [OF t2 [THEN conjunct2]]) code_simp
  have b2: "parseFieldAndValue_other 0 asciiEnv (str ''f'') ?b
      = (Inr (VString (str ''{a}'')), ?b\<lparr>position := 5\<rparr>)"
    by (rule trans [OF tb2 [THEN conjunct1]]) code_simp
  have b3: "parseJSONValue (Suc 0) asciiEnv ?b
      = (Inr (VString (str ''{a}'' @ [dquote])), ?b\<lparr>position := 5\<rparr>)"
    by (rule trans [OF tb2 [THEN conjunct2]]) code_simp
  show ?thesis
    by (intro conjI a1 a2 a3 b2 b3)
qed

text \<open>
  In the double-quoted text \<open>a\"b\<close> the input holds the sequence backslash, quote; the
  string returned is \<open>a\\<close>, which does not hold it, and the cursor is left on \<open>b\<close>.
\<close>

theorem C9_counterexample:
  "hasInfix [backslash, dquote] text_escaped_quote
   \<and> parseStringValue dquote (atRunes text_escaped_quote :: int parser)
     = (Inr [rn CHR ''a'', backslash], (atRunes text_escaped_quote)\<lparr>position := 4\<rparr>)
   \<and> \<not> hasInfix [backslash, dquote] [rn CHR ''a'', backslash]"
  by code_simp

section \<open>The constructor \<open>ObjectId\<close>\<close>

lemma check_hexRunes:
  "check E r hexRunes \<longleftrightarrow> (48 \<le> r \<and> r \<le> 57) \<or> (65 \<le> r \<and> r \<le> 70) \<or> (97 \<le> r \<and> r \<le> 102)"
  by (simp add: hexRunes_def rn_def) arith

lemma length_ObjectId: "length (str ''ObjectId'') = 8"
  by (simp add: str_def)

lemma ObjectId_is_identifier:
  "\<forall>x\<in>set (str ''ObjectId''). check E x jsonIdentChecks"
  "\<not> check E (rn CHR ''('') jsonIdentChecks"
  by (simp_all add: str_def rn_def jsonIdentChecks_def unicodeIs_def)

lemma parseJSONValue_letter_ObjectId:
  assumes "rest p = str ''ObjectId'' @ rn CHR ''('' # zs"
  shows "parseJSONValue (Suc n) E p
      = parseJSONValue_ObjectId E (p\<lparr>position := position p + 8\<rparr>)"
proof -
  have la: "lookahead p 0 = Inr (rn CHR ''O'')"
    using assms by (intro lookahead_rest [where ys = "str ''bjectId'' @ rn CHR ''('' # zs"])
      (simp add: str_def)
  have "readJSONIdentifier E p
      = (Inr (str ''ObjectId''), p\<lparr>position := position p + length (str ''ObjectId'')\<rparr>)"
    using assms ObjectId_is_identifier by (intro readJSONIdentifier_shape) auto
  then have id: "readJSONIdentifier E p
      = (Inr (str ''ObjectId''), p\<lparr>position := position p + 8\<rparr>)"
    unfolding length_ObjectId .
  have ne: "str ''ObjectId'' \<noteq> str ''null''" "str ''ObjectId'' \<noteq> str ''true''"
    "str ''ObjectId'' \<noteq> str ''false''" "str ''ObjectId'' \<noteq> str ''new''"
    "str ''ObjectId'' \<noteq> str ''Timestamp''"
    by (simp_all add: str_def rn_def)
  have "parseJSONValue_letter E p
      = parseJSONValue_ObjectId E (p\<lparr>position := position p + 8\<rparr>)"
    by (simp add: parseJSONValue_letter_def id ne)
  with la show ?thesis
    by (simp add: rn_def dquote_def unicodeIs_def)
qed

text \<open>
  Claim C6, as amended. A document value \<open>ObjectId(...)\<close> is parsed as: the rune \<open>(\<close>, a
  quote rune that is \<open>'\<close> or \<open>"\<close> (remembered), a run of hexadecimal digits, the same
  quote again, and \<open>)\<close>; a rune that is no quote, a different closing quote and a missing
  \<open>)\<close> are errors. The resulting value is the hexadecimal payload between the quotes as a
  plain string: no kind tag is attached to it.
\<close>

theorem C6_ObjectId_value:
  assumes "rest p = str ''ObjectId('' @ q # hex @ c # d # zs"
    and "\<forall>r\<in>set hex. check E r hexRunes"
    and "\<not> check E c hexRunes" and "c \<noteq> endRune"
  shows "parseJSONValue (Suc n) E p =
    (if q \<noteq> squote \<and> q \<noteq> dquote
       then (Inl ExpectedQuoteInObjectId, p\<lparr>position := position p + 9\<rparr>)
     else if c \<noteq> q
       then (Inl (Expected q c), p\<lparr>position := position p + length hex + 11\<rparr>)
     else if d \<noteq> rn CHR '')''
       then (Inl (Expected (rn CHR '')'') d), p\<lparr>position := position p + length hex + 12\<rparr>)
     else (Inr (VString hex), p\<lparr>position := position p + length hex + 12\<rparr>))"
proof -
  let ?p8 = "p\<lparr>position := position p + 8\<rparr>"
  let ?p9 = "p\<lparr>position := position p + 9\<rparr>"
  let ?p10 = "p\<lparr>position := position p + 10\<rparr>"
  let ?ph = "p\<lparr>position := position p + 10 + length hex\<rparr>"
  have r0: "rest p = str ''ObjectId'' @ rn CHR ''('' # (q # hex @ c # d # zs)"
    using assms(1) by (simp add: str_def)
  have r8: "rest ?p8 = rn CHR ''('' # q # hex @ c # d # zs"
    using rest_skip [OF r0] unfolding length_ObjectId by simp
  have r9: "rest ?p9 = q # hex @ c # d # zs"
    using rest_step [OF r8] by (simp add: add.commute)
  have r10: "rest ?p10 = hex @ c # d # zs"
    using rest_step [OF r9] by (simp add: add.commute)
  have rh: "rest ?ph = c # d # zs"
    using rest_skip [of ?p10 hex "c # d # zs"] r10 by simp
  have rh1: "rest (?ph\<lparr>position := position ?ph + 1\<rparr>) = d # zs"
    using rest_step [OF rh] by simp
  have e1: "expect (rn CHR ''('') ?p8 = (Inr (), ?p9)"
    using expect_rest [OF r8, of "rn CHR ''(''"] by simp
  have l9: "lookahead ?p9 0 = Inr q"
    using r9 by (rule lookahead_rest)
  have hexok: "\<forall>x\<in>set hex. x \<noteq> endRune \<and> check E x hexRunes"
    using assms(2) by (auto simp: check_hexRunes endRune_def)
  have rw: "readWhile E hexRunes (?p9\<lparr>position := position ?p9 + 1\<rparr>) = (Inr hex, ?ph)"
    using readWhile_shape [OF r10 hexok assms(4,3)] by (simp add: ac_simps)
  have e2: "expect q ?ph
      = (if c \<noteq> q then Inl (Expected q c) else Inr (),
         p\<lparr>position := position p + length hex + 11\<rparr>)"
    using expect_rest [OF rh, of q] by (simp add: ac_simps)
  have rh1: "rest (p\<lparr>position := position p + length hex + 11\<rparr>) = d # zs"
    using rest_step [OF rh] by (simp add: ac_simps)
  have e3: "expect (rn CHR '')'') (p\<lparr>position := position p + length hex + 11\<rparr>)
      = (if d \<noteq> rn CHR '')'' then Inl (Expected (rn CHR '')'') d) else Inr (),
         p\<lparr>position := position p + length hex + 12\<rparr>)"
    using expect_rest [OF rh1, of "rn CHR '')''"] by (simp add: ac_simps)
  have "parseJSONValue_ObjectId E ?p8 =
    (if q \<noteq> squote \<and> q \<noteq> dquote
       then (Inl ExpectedQuoteInObjectId, p\<lparr>position := position p + 9\<rparr>)
     else if c \<noteq> q
       then (Inl (Expected q c), p\<lparr>position := position p + length hex + 11\<rparr>)
     else if d \<noteq> rn CHR '')''
       then (Inl (Expected (rn CHR '')'') d), p\<lparr>position := position p + length hex + 12\<rparr>)
     else (Inr (VString hex), p\<lparr>position := position p + length hex + 12\<rparr>))"
    unfolding parseJSONValue_ObjectId_def e1 prod.case sum.case l9 rw e2 e3
    by (simp split: if_splits)
  with parseJSONValue_letter_ObjectId [OF r0] show ?thesis
    by simp
qed

text \<open>The theorem on the ObjectId of the specification's fifth scenario.\<close>

theorem C6_ObjectId_value_witness:
  "rest (atRunes text_objectid :: int parser)
     = str ''ObjectId('' @ dquote # str ''507f1f77bcf86cd799439011'' @ dquote # rn CHR '')''
         # str '' }'' @ [endRune]
   \<and> list_all (\<lambda>r. check asciiEnv r hexRunes) (str ''507f1f77bcf86cd799439011'')
   \<and> \<not> check asciiEnv dquote hexRunes \<and> dquote \<noteq> endRune
   \<and> parseJSONValue 1 asciiEnv (atRunes text_objectid)
     = (Inr (VString (str ''507f1f77bcf86cd799439011'')), (atRunes text_objectid)\<lparr>position := 36\<rparr>)"
proof -
  let ?p = "atRunes text_objectid :: int parser"
  let ?hex = "str ''507f1f77bcf86cd799439011''"
  have h: "rest ?p = str ''ObjectId('' @ dquote # ?hex @ dquote # rn CHR '')''
         # str '' }'' @ [endRune]"
    "list_all (\<lambda>r. check asciiEnv r hexRunes) ?hex"
    "\<not> check asciiEnv dquote hexRunes" "dquote \<noteq> endRune"
    by code_simp+
  have h2: "\<forall>r\<in>set ?hex. check asciiEnv r hexRunes"
    using h(2) by (simp only: list_all_iff)
  have n: "position ?p + length ?hex + 12 = 36"
    by code_simp
  have "parseJSONValue (Suc 0) asciiEnv ?p = (Inr (VString ?hex), ?p\<lparr>position := 36\<rparr>)"
    using C6_ObjectId_value [OF h(1) h2 h(3,4), of 0] unfolding n
    by (simp add: dquote_def squote_def)
  with h show ?thesis
    by simp
qed

text \<open>
  The value of \<open>ObjectId("507f1f77bcf86cd799439011")\<close> is the value of the quoted string
  \<open>"507f1f77bcf86cd799439011"\<close>: nothing in it says that it came from an ObjectId.
\<close>

theorem C6_counterexample:
  "fst (parseJSONValue 1 asciiEnv (atRunes text_objectid))
     = Inr (VString (str ''507f1f77bcf86cd799439011''))
   \<and> fst (parseJSONValue 1 asciiEnv (atRunes text_hex_string))
     = Inr (VString (str ''507f1f77bcf86cd799439011''))"
  by code_simp

section \<open>The constructor \<open>new Date\<close>\<close>

lemma Space_not_ident:
  assumes "envOK E" "unicodeIs E Space r"
  shows "\<not> check E r jsonIdentChecks"
  using assms
  by (auto simp: envOK_def unicodeIs_def jsonIdentChecks_def rn_def split: if_splits)

lemma new_is_identifier:
  "\<forall>x\<in>set (str ''new''). check E x jsonIdentChecks"
  by (simp add: str_def rn_def jsonIdentChecks_def unicodeIs_def)

lemma length_new: "length (str ''new'') = 3"
  by (simp add: str_def)

lemma length_Date: "length (str ''Date'') = 4"
  by (simp add: str_def)

lemma unixNanos_millis:
  "unixNanos (a sdiv 1000) (a smod 1000 * 1000000) = a * 1000000"
proof -
  have "a sdiv 1000 * 1000 + a smod 1000 = a"
    by (rule sdiv_mult_smod_eq)
  then have "(a sdiv 1000 * 1000 + a smod 1000) * 1000000 = a * 1000000"
    by simp
  then show ?thesis
    by (simp add: unixNanos_def algebra_simps)
qed

lemma parseJSONValue_new_entry:
  assumes "rest p = str ''new'' @ w # zs" and "\<not> check E w jsonIdentChecks"
  shows "parseJSONValue (Suc n) E p
      = parseJSONValue_new E (p\<lparr>position := position p + 3\<rparr>)"
proof -
  have la: "lookahead p 0 = Inr (rn CHR ''n'')"
    using assms(1) by (intro lookahead_rest [where ys = "str ''ew'' @ w # zs"])
      (simp add: str_def)
  have "readJSONIdentifier E p
      = (Inr (str ''new''), p\<lparr>position := position p + length (str ''new'')\<rparr>)"
    using assms new_is_identifier
    by (intro readJSONIdentifier_shape) auto
  then have id: "readJSONIdentifier E p = (Inr (str ''new''), p\<lparr>position := position p + 3\<rparr>)"
    unfolding length_new .
  have ne: "str ''new'' \<noteq> str ''null''" "str ''new'' \<noteq> str ''true''"
    "str ''new'' \<noteq> str ''false''"
    by (simp_all add: str_def rn_def)
  have "parseJSONValue_letter E p = parseJSONValue_new E (p\<lparr>position := position p + 3\<rparr>)"
    by (simp add: parseJSONValue_letter_def id ne)
  with la show ?thesis
    by (simp add: rn_def dquote_def unicodeIs_def)
qed

lemma parseJSONValue_new_constructor:
  assumes env: "envOK E"
    and shape: "rest p = ws @ ident @ y # zs"
    and ws: "\<forall>r\<in>set ws. unicodeIs E Space r"
    and ident: "\<forall>r\<in>set ident. check E r jsonIdentChecks" "\<not> check E y jsonIdentChecks"
    and first: "ident = [] \<longrightarrow> \<not> unicodeIs E Space y"
  shows "eatWhitespace E p = (Inr (), p\<lparr>position := position p + length ws\<rparr>)"
    and "readJSONIdentifier E (p\<lparr>position := position p + length ws\<rparr>)
      = (Inr ident, p\<lparr>position := position p + length ws + length ident\<rparr>)"
    and "rest (p\<lparr>position := position p + length ws + length ident\<rparr>) = y # zs"
proof -
  let ?p1 = "p\<lparr>position := position p + length ws\<rparr>"
  obtain h t where ht: "ident @ y # zs = h # t"
    by (cases "ident @ y # zs") auto
  have "\<not> unicodeIs E Space h"
  proof (cases ident)
    case Nil
    with ht first show ?thesis by simp
  next
    case (Cons a as)
    with ht ident(1) have "check E h jsonIdentChecks"
      by simp
    with Space_not_ident [OF env] show ?thesis
      by blast
  qed
  with shape ws ht show "eatWhitespace E p = (Inr (), ?p1)"
    by (intro eatWhitespace_shape [where y = h and ys = t]) simp_all
  have r1: "rest ?p1 = ident @ y # zs"
    using rest_skip [OF shape] by simp
  from readJSONIdentifier_shape [OF r1 ident]
  show "readJSONIdentifier E ?p1 = (Inr ident, p\<lparr>position := position p + length ws + length ident\<rparr>)"
    by simp
  show "rest (p\<lparr>position := position p + length ws + length ident\<rparr>) = y # zs"
    using rest_skip [of ?p1 ident "y # zs"] r1 by simp
qed

text \<open>
  Claim C5. When a document value is the identifier \<open>new\<close>, the parser skips the
  separators after it and reads the next identifier; any identifier other than \<open>Date\<close>
  fails with the unknown-constructor error, which carries it. After \<open>Date\<close> it expects
  \<open>(\<close> and fails with the error of \<^verbatim>\<open>expect\<close> on any other rune; it reads a number,
  which fails when the line ends in it or when it is no number; it expects \<open>)\<close> and it
  requires the number to be integral. The value is then
  \<^verbatim>\<open>time.Unix(ms / 1000, ms % 1000 * 1000000)\<close> for \<^verbatim>\<open>ms = int64(number)\<close>, the instant
  \<open>ms\<close> milliseconds after the epoch. The text is \<open>new\<close>, the separators \<open>ws\<close>, the
  identifier \<open>ident\<close>, the rune \<open>y\<close> that ends it and the rest \<open>zs\<close>, whose longest
  prefix of number runes is the number.
\<close>

theorem C5_new_Date:
  assumes env: "envOK E"
    and shape: "rest p = str ''new'' @ ws @ ident @ y # zs"
    and ws: "\<forall>r\<in>set ws. unicodeIs E Space r" "ws = [] \<longrightarrow> ident = []"
    and ident: "\<forall>r\<in>set ident. check E r jsonIdentChecks" "\<not> check E y jsonIdentChecks"
    and first: "ident = [] \<longrightarrow> \<not> unicodeIs E Space y"
  shows "parseJSONValue (Suc n) E p =
      (let q = position p + 3 + length ws;
           num = takeWhile (\<lambda>r. check E r numberChecks) zs;
           after = dropWhile (\<lambda>r. check E r numberChecks) zs
       in if ident \<noteq> str ''Date''
          then (Inl (UnexpectedConstructor ident), p\<lparr>position := q + length ident\<rparr>)
          else if y \<noteq> rn CHR ''(''
          then (Inl (Expected (rn CHR ''('') y), p\<lparr>position := q + 5\<rparr>)
          else if after = [] then (Inl PanicIndexOutOfRange, p\<lparr>position := q + 5\<rparr>)
          else if hd after = endRune then (Inl EndBeforeRange, p\<lparr>position := q + 5\<rparr>)
          else case ParseFloat E num of
                 None \<Rightarrow> (Inl (NumError num), p\<lparr>position := q + 5 + length num\<rparr>)
               | Some d \<Rightarrow>
                   (if hd after \<noteq> rn CHR '')'' then Inl (Expected (rn CHR '')'') (hd after))
                    else if \<not> floatIsIntegral E d then Inl ExpectedIntInDate
                    else Inr (VTime (floatToInt64 E d sdiv 1000)
                                    (floatToInt64 E d smod 1000 * 1000000)),
                    p\<lparr>position := q + 5 + length num + 1\<rparr>))
    \<and> (\<forall>ms. unixNanos (ms sdiv 1000) (ms smod 1000 * 1000000) = ms * 1000000)"
proof (intro conjI allI unixNanos_millis)
  let ?c = "\<lambda>r. check E r numberChecks"
  let ?num = "takeWhile ?c zs"
  let ?after = "dropWhile ?c zs"
  let ?k = "position p + 3 + length ws"
  let ?q = "p\<lparr>position := position p + 3\<rparr>"
  let ?q1 = "p\<lparr>position := ?k\<rparr>"
  let ?q2 = "p\<lparr>position := ?k + length ident\<rparr>"
  obtain w zs0 where w: "ws @ ident @ y # zs = w # zs0"
    by (cases "ws @ ident @ y # zs") auto
  have "\<not> check E w jsonIdentChecks"
  proof (cases ws)
    case Nil
    with ws(2) w ident(2) show ?thesis by simp
  next
    case (Cons a as)
    with w ws(1) have "unicodeIs E Space w" by simp
    with Space_not_ident [OF env] show ?thesis by blast
  qed
  with shape w have entry: "parseJSONValue (Suc n) E p = parseJSONValue_new E ?q"
    by (intro parseJSONValue_new_entry [where w = w and zs = zs0]) simp_all
  have rq: "rest ?q = ws @ ident @ y # zs"
    using rest_skip [OF shape] unfolding length_new by simp
  note c = parseJSONValue_new_constructor [OF env rq ws(1) ident first]
  have c1: "eatWhitespace E ?q = (Inr (), ?q1)"
    using c(1) by simp
  have c2: "readJSONIdentifier E ?q1 = (Inr ident, ?q2)"
    using c(2) by simp
  have c3: "rest ?q2 = y # zs"
    using c(3) by simp
  show "parseJSONValue (Suc n) E p =
      (let q = position p + 3 + length ws;
           num = takeWhile (\<lambda>r. check E r numberChecks) zs;
           after = dropWhile (\<lambda>r. check E r numberChecks) zs
       in if ident \<noteq> str ''Date''
          then (Inl (UnexpectedConstructor ident), p\<lparr>position := q + length ident\<rparr>)
          else if y \<noteq> rn CHR ''(''
          then (Inl (Expected (rn CHR ''('') y), p\<lparr>position := q + 5\<rparr>)
          else if after = [] then (Inl PanicIndexOutOfRange, p\<lparr>position := q + 5\<rparr>)
          else if hd after = endRune then (Inl EndBeforeRange, p\<lparr>position := q + 5\<rparr>)
          else case ParseFloat E num of
                 None \<Rightarrow> (Inl (NumError num), p\<lparr>position := q + 5 + length num\<rparr>)
               | Some d \<Rightarrow>
                   (if hd after \<noteq> rn CHR '')'' then Inl (Expected (rn CHR '')'') (hd after))
                    else if \<not> floatIsIntegral E d then Inl ExpectedIntInDate
                    else Inr (VTime (floatToInt64 E d sdiv 1000)
                                    (floatToInt64 E d smod 1000 * 1000000)),
                    p\<lparr>position := q + 5 + length num + 1\<rparr>))"
  proof (cases "ident = str ''Date''")
    case False
    then show ?thesis
      unfolding entry parseJSONValue_new_def c1 prod.case sum.case c2 by (simp add: Let_def)
  next
    case True
    let ?q3 = "p\<lparr>position := ?k + 5\<rparr>"
    let ?q4 = "p\<lparr>position := ?k + 5 + length ?num\<rparr>"
    have q2: "?q2 = p\<lparr>position := ?k + 4\<rparr>"
      using True by (simp add: length_Date)
    have e1: "expect (rn CHR ''('') ?q2
        = (if y \<noteq> rn CHR ''('' then Inl (Expected (rn CHR ''('') y) else Inr (), ?q3)"
      using expect_rest [OF c3, of "rn CHR ''(''"] True by (simp add: length_Date)
    have r3: "rest ?q3 = zs"
      using rest_step [OF c3] True by (simp add: length_Date)
    note rn = readNumber_rest [OF r3, of E]
    show ?thesis
    proof (cases "y = rn CHR ''(''")
      case False
      with True e1 show ?thesis
        unfolding entry parseJSONValue_new_def c1 prod.case sum.case c2
        by (simp add: Let_def)
    next
      case y: True
      show ?thesis
      proof (cases ?after)
        case Nil
        with True y e1 rn show ?thesis
          unfolding entry parseJSONValue_new_def c1 prod.case sum.case c2
          by (simp add: Let_def)
      next
        case (Cons z zs')
        show ?thesis
        proof (cases "z = endRune")
          case z: True
          with Cons True y e1 rn show ?thesis
            unfolding entry parseJSONValue_new_def c1 prod.case sum.case c2
            by (simp add: Let_def)
        next
          case z: False
          have "zs = ?num @ ?after"
            by simp
          with Cons have "rest ?q3 = ?num @ z # zs'"
            using r3 by simp
          from rest_skip [OF this] have r4: "rest ?q4 = z # zs'"
            by simp
          have e2: "expect (rn CHR '')'') ?q4
              = (if z \<noteq> rn CHR '')'' then Inl (Expected (rn CHR '')'') z) else Inr (),
                 p\<lparr>position := ?k + 5 + length ?num + 1\<rparr>)"
            using expect_rest [OF r4, of "rn CHR '')''"] by simp
          from Cons True y z e1 rn e2 show ?thesis
            unfolding entry parseJSONValue_new_def c1 prod.case sum.case c2
            by (simp add: Let_def split: option.splits)
        qed
      qed
    qed
  qed
qed

text \<open>
  The theorem on \<open>new Date(1447201207123)\<close>, on \<open>new Foo(1)\<close> and on \<open>new Date 5\<close>,
  where a space stands in the place of the parenthesis.
\<close>

lemma envOK_asciiEnv: "envOK asciiEnv"
  by (simp add: envOK_def asciiEnv_def)

theorem C5_new_Date_witness:
  "parseJSONValue (Suc 0) asciiEnv (atRunes text_new_date)
       = (Inr (VTime 1447201207 123000000), (atRunes text_new_date)\<lparr>position := 23\<rparr>)
   \<and> unixNanos 1447201207 123000000 = 1447201207123 * 1000000
   \<and> parseJSONValue (Suc 0) asciiEnv (atRunes text_new_other)
       = (Inl (UnexpectedConstructor (str ''Foo'')), (atRunes text_new_other)\<lparr>position := 7\<rparr>)
   \<and> parseJSONValue (Suc 0) asciiEnv (atRunes text_new_date_space)
       = (Inl (Expected (rn CHR ''('') (rn CHR '' '')),
          (atRunes text_new_date_space)\<lparr>position := 9\<rparr>)"
proof -
  let ?p = "atRunes text_new_date :: int parser"
  let ?o = "atRunes text_new_other :: int parser"
  let ?s = "atRunes text_new_date_space :: int parser"
  have shape: "rest ?p = str ''new'' @ str '' '' @ str ''Date'' @ rn CHR ''(''
           # (str ''1447201207123) }'' @ [endRune])"
    by code_simp
  have oshape: "rest ?o = str ''new'' @ str '' '' @ str ''Foo'' @ rn CHR ''(''
           # (str ''1) }'' @ [endRune])"
    by code_simp
  have sshape: "rest ?s = str ''new'' @ str '' '' @ str ''Date'' @ rn CHR '' ''
           # (str ''5 }'' @ [endRune])"
    by code_simp
  have ws: "\<forall>r\<in>set (str '' ''). unicodeIs asciiEnv Space r"
    "str '' '' = [] \<longrightarrow> str ''Date'' = []" "str '' '' = [] \<longrightarrow> str ''Foo'' = []"
    by code_simp+
  have idD: "\<forall>r\<in>set (str ''Date''). check asciiEnv r jsonIdentChecks"
    "\<forall>r\<in>set (str ''Foo''). check asciiEnv r jsonIdentChecks"
    "\<not> check asciiEnv (rn CHR ''('') jsonIdentChecks"
    "\<not> check asciiEnv (rn CHR '' '') jsonIdentChecks"
    "str ''Date'' = [] \<longrightarrow> \<not> unicodeIs asciiEnv Space (rn CHR ''('')"
    "str ''Foo'' = [] \<longrightarrow> \<not> unicodeIs asciiEnv Space (rn CHR ''('')"
    "str ''Date'' = [] \<longrightarrow> \<not> unicodeIs asciiEnv Space (rn CHR '' '')"
    by code_simp+
  note date = C5_new_Date [OF envOK_asciiEnv shape ws(1,2) idD(1,3,5), of 0]
  note other = C5_new_Date [OF envOK_asciiEnv oshape ws(1,3) idD(2,3,6), of 0]
  note space = C5_new_Date [OF envOK_asciiEnv sshape ws(1,2) idD(1,4,7), of 0]
  have d: "parseJSONValue (Suc 0) asciiEnv ?p
       = (Inr (VTime 1447201207 123000000), ?p\<lparr>position := 23\<rparr>)"
    by (rule trans [OF date [THEN conjunct1]]) code_simp
  have u: "unixNanos 1447201207 123000000 = 1447201207123 * 1000000"
    using date [THEN conjunct2, rule_format, of 1447201207123] by code_simp
  have ot: "parseJSONValue (Suc 0) asciiEnv ?o
       = (Inl (UnexpectedConstructor (str ''Foo'')), ?o\<lparr>position := 7\<rparr>)"
    by (rule trans [OF other [THEN conjunct1]]) code_simp
  have sp: "parseJSONValue (Suc 0) asciiEnv ?s
       = (Inl (Expected (rn CHR ''('') (rn CHR '' '')), ?s\<lparr>position := 9\<rparr>)"
    by (rule trans [OF space [THEN conjunct1]]) code_simp
  show ?thesis
    by (intro conjI d u ot sp)
qed

section \<open>The quoted JSON blob\<close>

lemma matchAhead_take:
  assumes "endRune \<in> set (drop i (runes p))" and "endRune \<notin> set s"
  shows "matchAhead p i s = Inr (take (length s) (drop i (runes p)) = s)"
  using assms
proof (induction s arbitrary: i)
  case Nil
  show ?case by simp
next
  case (Cons r s)
  from Cons.prems(1) obtain x d where xd: "drop i (runes p) = x # d"
    by (cases "drop i (runes p)") auto
  from drop_ConsD [OF xd] have i: "i < length (runes p)" "runes p ! i = x"
      "drop (Suc i) (runes p) = d"
    by auto
  show ?case
  proof (cases "r = x")
    case False
    with i xd show ?thesis
      by simp
  next
    case True
    with Cons.prems(2) have "x \<noteq> endRune"
      by auto
    with Cons.prems(1) xd i(3) have "endRune \<in> set (drop (Suc i) (runes p))"
      by simp
    from Cons.IH [OF this] Cons.prems(2) True i xd show ?thesis
      by simp
  qed
qed

lemma terminators_no_endRune:
  "endRune \<notin> set quoteCommaSpace" "endRune \<notin> set dotsQuoteCommaSpace"
  "length quoteCommaSpace = 3" "length dotsQuoteCommaSpace = 6"
  by (simp_all add: quoteCommaSpace_def dotsQuoteCommaSpace_def endRune_def rn_def dquote_def)

lemma embeddedLoop_scanBlob:
  assumes "drop e (runes p) = xs" and "xs \<noteq> []" and "hd xs \<noteq> endRune"
    and "endRune \<in> set xs"
  shows "embeddedLoop p q e
    = (case scanBlob q xs of Some k \<Rightarrow> Inr (e + k) | None \<Rightarrow> Inl UnexpectedEndJSON)"
  using assms
proof (induction xs arbitrary: e q)
  case Nil
  then show ?case by simp
next
  case (Cons r rs)
  from drop_ConsD [OF Cons.prems(1)] have e: "e < length (runes p)" "runes p ! e = r"
      "drop (Suc e) (runes p) = rs"
    by auto
  from Cons.prems(3,4) have rs: "endRune \<in> set rs" "rs \<noteq> []"
    by auto
  then obtain r' rs' where r': "rs = r' # rs'"
    by (cases rs) auto
  from drop_ConsD [of "Suc e" "runes p" r' rs'] e(3) r'
  have e1: "Suc e < length (runes p)" "runes p ! Suc e = r'"
    by auto
  have en: "endRune \<in> set (drop e (runes p))"
    using Cons.prems(1,4) by simp
  define A where "A = (take 3 (r # rs) = quoteCommaSpace)"
  define B where "B = (take 6 (r # rs) = dotsQuoteCommaSpace)"
  let ?q' = "if r = dquote then \<not> q else q"
  have m3: "matchAhead p e quoteCommaSpace = Inr A"
    using matchAhead_take [OF en terminators_no_endRune(1)] Cons.prems(1)
    unfolding A_def by (simp only: terminators_no_endRune)
  have m6: "matchAhead p e dotsQuoteCommaSpace = Inr B"
    using matchAhead_take [OF en terminators_no_endRune(2)] Cons.prems(1)
    unfolding B_def by (simp only: terminators_no_endRune)
  have loop: "embeddedLoop p q e =
     (if \<not> q \<and> A then Inr (e + 1) else if q \<and> B then Inr (e + 4)
      else if r' = endRune then Inl UnexpectedEndJSON else embeddedLoop p ?q' (Suc e))"
    by (subst embeddedLoop.simps) (simp add: m3 m6 e e1)
  have "scanBlob q (r # rs) =
     (if \<not> q \<and> A then Some 1 else if q \<and> B then Some 4
      else if rs = [] \<or> hd rs = endRune then None
      else map_option Suc (scanBlob ?q' rs))"
    unfolding A_def B_def by (simp only: scanBlob.simps)
  moreover have "(rs = [] \<or> hd rs = endRune) = (r' = endRune)"
    using r' by simp
  ultimately have spec: "scanBlob q (r # rs) =
     (if \<not> q \<and> A then Some 1 else if q \<and> B then Some 4
      else if r' = endRune then None
      else map_option Suc (scanBlob ?q' rs))"
    by (simp only:)
  have ih: "embeddedLoop p ?q' (Suc e)
      = (case scanBlob ?q' rs of Some k \<Rightarrow> Inr (Suc e + k) | None \<Rightarrow> Inl UnexpectedEndJSON)"
    if "r' \<noteq> endRune"
    using that r' rs e(3) by (intro Cons.IH) auto
  show ?case
  proof (cases "(\<not> q \<and> A) \<or> (q \<and> B) \<or> r' = endRune")
    case True
    then show ?thesis
      unfolding loop spec by auto
  next
    case False
    then show ?thesis
      unfolding loop spec using ih by (auto split: option.splits)
  qed
qed

lemma take_eq_appendD: "take n xs = ys \<Longrightarrow> \<exists>t. xs = ys @ t"
  by (metis append_take_drop_id)

lemma scanBlob_Some:
  "scanBlob q xs = Some k \<Longrightarrow>
     0 < k \<and> k + 1 < length xs \<and> xs ! (k - 1) = dquote \<and> xs ! k = rn CHR '',''
     \<and> xs ! (k + 1) = rn CHR '' ''"
proof (induction xs arbitrary: q k)
  case Nil
  then show ?case by simp
next
  case (Cons r rs)
  show ?case
  proof (cases "\<not> q \<and> take 3 (r # rs) = quoteCommaSpace")
    case True
    then have "k = 1"
      using Cons.prems by simp
    moreover from True obtain t where "r # rs = quoteCommaSpace @ t"
      using take_eq_appendD by blast
    ultimately show ?thesis
      by (simp add: quoteCommaSpace_def)
  next
    case n3: False
    show ?thesis
    proof (cases "q \<and> take 6 (r # rs) = dotsQuoteCommaSpace")
      case True
      then have "k = 4"
        using Cons.prems n3 by (simp del: take_Suc_Cons)
      moreover from True obtain t where "r # rs = dotsQuoteCommaSpace @ t"
        using take_eq_appendD by blast
      ultimately show ?thesis
        by (simp add: dotsQuoteCommaSpace_def)
    next
      case n6: False
      with n3 Cons.prems obtain k' where
        k': "scanBlob (if r = dquote then \<not> q else q) rs = Some k'" "k = Suc k'"
        by (auto simp del: take_Suc_Cons split: if_splits)
      from Cons.IH [OF k'(1)] k'(2) show ?thesis
        by (cases k') auto
    qed
  qed
qed

text \<open>
  Claim C7, as amended. When a document value begins with a double quote immediately
  followed by \<open>{\<close>, the parser scans forward from the brace, toggling an in-quote flag at
  every quote it passes, until it sees quote, comma, space outside quotes or three dots,
  quote, comma, space inside quotes. The value is the raw text from the brace up to the
  terminating comma, so it ends with the closing quote (after the dots, for the truncation
  marker), and the cursor is left on that comma. When the end of the input comes before a
  terminator, the result is the error "unexpected end of line reading json value".
\<close>

theorem C7_quoted_blob:
  assumes "rest p = dquote # rn CHR ''{'' # zs" and "endRune \<in> set zs"
  shows "parseJSONValue (Suc n) E p
     = (case scanBlob False (rn CHR ''{'' # zs) of
          Some k \<Rightarrow> (Inr (VString (take k (rn CHR ''{'' # zs))),
                     p\<lparr>position := position p + 1 + k\<rparr>)
        | None \<Rightarrow> (Inl UnexpectedEndJSON, p\<lparr>position := position p + 1\<rparr>))
   \<and> (\<forall>k. scanBlob False (rn CHR ''{'' # zs) = Some k \<longrightarrow>
          last (take k (rn CHR ''{'' # zs)) = dquote
          \<and> (rn CHR ''{'' # zs) ! k = rn CHR '',''
          \<and> (rn CHR ''{'' # zs) ! (k + 1) = rn CHR '' '')"
proof
  let ?p1 = "p\<lparr>position := position p + 1\<rparr>"
  let ?xs = "rn CHR ''{'' # zs"
  have la: "lookahead p 0 = Inr dquote" "lookahead p 1 = Inr (rn CHR ''{'')"
    using assms(1) lookahead_rest lookahead1_rest by blast+
  have d: "drop (position ?p1) (runes ?p1) = ?xs"
    using rest_step [OF assms(1)] by simp
  have "embeddedLoop ?p1 False (position ?p1)
      = (case scanBlob False ?xs of Some k \<Rightarrow> Inr (position ?p1 + k)
         | None \<Rightarrow> Inl UnexpectedEndJSON)"
    using assms(2) by (intro embeddedLoop_scanBlob [OF d]) (simp_all add: rn_def endRune_def)
  moreover have "slice (runes ?p1) (position ?p1) (position ?p1 + k) = take k ?xs" for k
    using d by (simp add: slice_def)
  ultimately have blob: "parseJSONValue_blob p
     = (case scanBlob False ?xs of
          Some k \<Rightarrow> (Inr (VString (take k ?xs)), p\<lparr>position := position p + 1 + k\<rparr>)
        | None \<Rightarrow> (Inl UnexpectedEndJSON, ?p1))"
    by (simp add: parseJSONValue_blob_def Let_def del: scanBlob.simps split: option.splits)
  have "parseJSONValue (Suc n) E p = parseJSONValue_blob p"
    using la by (simp add: dquote_def rn_def unicodeIs_def)
  with blob show "parseJSONValue (Suc n) E p
     = (case scanBlob False ?xs of
          Some k \<Rightarrow> (Inr (VString (take k ?xs)), p\<lparr>position := position p + 1 + k\<rparr>)
        | None \<Rightarrow> (Inl UnexpectedEndJSON, ?p1))"
    by simp
  show "\<forall>k. scanBlob False ?xs = Some k \<longrightarrow>
          last (take k ?xs) = dquote \<and> ?xs ! k = rn CHR '','' \<and> ?xs ! (k + 1) = rn CHR '' ''"
  proof (intro allI impI)
    fix k
    assume "scanBlob False ?xs = Some k"
    from scanBlob_Some [OF this] have k: "0 < k" "k + 1 < length ?xs"
        "?xs ! (k - 1) = dquote" "?xs ! k = rn CHR '',''" "?xs ! (k + 1) = rn CHR '' ''"
      by auto
    have "last (take k ?xs) = ?xs ! (k - 1)"
      using k(1,2) by (subst last_conv_nth) (auto simp del: take_Suc_Cons simp: min_def)
    with k show "last (take k ?xs) = dquote \<and> ?xs ! k = rn CHR '','' \<and> ?xs ! (k + 1) = rn CHR '' ''"
      by simp
  qed
qed

text \<open>The theorem on a truncated blob, and on a blob that the end of the line cuts.\<close>

theorem C7_quoted_blob_witness:
  "rest (atRunes text_blob_truncated :: int parser)
     = dquote # rn CHR ''{'' # (drop 2 text_blob_truncated @ [endRune])
   \<and> endRune \<in> set (drop 2 text_blob_truncated @ [endRune])
   \<and> parseJSONValue 1 asciiEnv (atRunes text_blob_truncated)
     = (Inr (VString (str ''{'' @ [dquote] @ str ''alert'' @ [dquote] @ str '':'' @ [dquote]
              @ str ''some...'' @ [dquote])),
        (atRunes text_blob_truncated)\<lparr>position := 19\<rparr>)
   \<and> rest (atRunes text_blob_cut :: int parser)
     = dquote # rn CHR ''{'' # (drop 2 text_blob_cut @ [endRune])
   \<and> endRune \<in> set (drop 2 text_blob_cut @ [endRune])
   \<and> parseJSONValue 1 asciiEnv (atRunes text_blob_cut)
     = (Inl UnexpectedEndJSON, (atRunes text_blob_cut)\<lparr>position := 1\<rparr>)"
proof -
  let ?t = "atRunes text_blob_truncated :: int parser"
  let ?c = "atRunes text_blob_cut :: int parser"
  have t: "rest ?t = dquote # rn CHR ''{'' # (drop 2 text_blob_truncated @ [endRune])"
    "endRune \<in> set (drop 2 text_blob_truncated @ [endRune])"
    by code_simp+
  have c: "rest ?c = dquote # rn CHR ''{'' # (drop 2 text_blob_cut @ [endRune])"
    "endRune \<in> set (drop 2 text_blob_cut @ [endRune])"
    by code_simp+
  have st: "scanBlob False (rn CHR ''{'' # (drop 2 text_blob_truncated @ [endRune])) = Some 18"
    "take 18 (rn CHR ''{'' # (drop 2 text_blob_truncated @ [endRune]))
       = str ''{'' @ [dquote] @ str ''alert'' @ [dquote] @ str '':'' @ [dquote]
              @ str ''some...'' @ [dquote]"
    "position ?t + 1 + 18 = 19"
    by code_simp+
  have sc: "scanBlob False (rn CHR ''{'' # (drop 2 text_blob_cut @ [endRune])) = None"
    "position ?c + 1 = 1"
    by code_simp+
  note tt = C7_quoted_blob [OF t, of 0 asciiEnv, THEN conjunct1, unfolded st option.case]
  note cc = C7_quoted_blob [OF c, of 0 asciiEnv, THEN conjunct1, unfolded sc option.case]
  have pt: "parseJSONValue 1 asciiEnv ?t
     = (Inr (VString (str ''{'' @ [dquote] @ str ''alert'' @ [dquote] @ str '':'' @ [dquote]
              @ str ''some...'' @ [dquote])), ?t\<lparr>position := 19\<rparr>)"
    using tt by (simp only: One_nat_def)
  have pc: "parseJSONValue 1 asciiEnv ?c = (Inl UnexpectedEndJSON, ?c\<lparr>position := 1\<rparr>)"
    using cc by (simp only: One_nat_def)
  show ?thesis
    by (intro conjI t c pt pc)
qed

text \<open>
  On the blob of the specification's sixth scenario the value is the text
  \<open>{"alert":"x","id":"1"}"\<close>, with the closing quote, not the text without it; the cursor is
  on the comma.
\<close>

theorem C7_counterexample:
  "parseJSONValue 1 asciiEnv (atRunes text_blob)
     = (Inr (VString (blob_alert @ [dquote])), (atRunes text_blob)\<lparr>position := 24\<rparr>)
   \<and> blob_alert @ [dquote] \<noteq> blob_alert
   \<and> lookahead ((atRunes text_blob :: int parser)\<lparr>position := 24\<rparr>) 0 = Inr (rn CHR '','')"
  by code_simp

end
